theory Spec2Isabelle
  imports Main "HOL-Library.Sublist"
begin


section \<open>Python values used by the two upload scripts\<close>

text \<open>
  A Python \<open>str\<close> is a sequence of Unicode code points, a \<open>bytes\<close> object a sequence of
  octets. Literals of the scripts are ASCII; \<open>ustr\<close> reads an ASCII literal as a \<open>str\<close>.
\<close>

type_synonym pystr = "nat list"
type_synonym bytes = "char list"

definition ustr :: "string \<Rightarrow> pystr" where
  "ustr s = map of_char s"

text \<open>
  The exceptions the scripts can meet. \<open>KeyError\<close> carries the missing key. The last five
  are raised by the HTTP and JSON libraries; which one, and when, is decided by the
  environment (the server and the network), so they are inputs of the model.
\<close>

datatype error =
    KeyError pystr
  | TypeError
  | AttributeError
  | UnicodeEncodeError
  | HTTPError int
  | URLError
  | ConnectionError
  | UnicodeDecodeError
  | JSONDecodeError

text \<open>\<open>str.encode()\<close>: UTF-8, code point by code point. A surrogate has no encoding and
  raises \<open>UnicodeEncodeError\<close>. The code points of a \<open>str\<close> are below \<open>0x110000\<close>, so the
  last branch writes the four-octet form.\<close>

definition utf8 :: "nat \<Rightarrow> error + bytes" where
  "utf8 c =
     (if c < 128 then Inr [char_of c]
      else if c < 2048 then Inr [char_of (192 + c div 64), char_of (128 + c mod 64)]
      else if 55296 \<le> c \<and> c < 57344 then Inl UnicodeEncodeError
      else if c < 65536 then
        Inr [char_of (224 + c div 4096), char_of (128 + c div 64 mod 64), char_of (128 + c mod 64)]
      else
        Inr [char_of (240 + c div 262144), char_of (128 + c div 4096 mod 64),
             char_of (128 + c div 64 mod 64), char_of (128 + c mod 64)])"

fun encode :: "pystr \<Rightarrow> error + bytes" where
  "encode [] = Inr []"
| "encode (c # cs) =
     (case utf8 c of
        Inl e \<Rightarrow> Inl e
      | Inr bs \<Rightarrow> (case encode cs of Inl e \<Rightarrow> Inl e | Inr rest \<Rightarrow> Inr (bs @ rest)))"

text \<open>
  What \<open>json.loads\<close> and \<open>response.json()\<close> return: \<open>None\<close>, \<open>bool\<close>, \<open>int\<close>, \<open>str\<close>,
  \<open>list\<close> and \<open>dict\<close>. A \<open>dict\<close> is an association list in which the first binding of a
  key is the one the dictionary holds. JSON numbers with a fraction or an exponent
  (Python floats) are not represented.
\<close>

datatype json =
    JNull
  | JBool bool
  | JInt int
  | JStr pystr
  | JArr "json list"
  | JObj "(pystr \<times> json) list"

text \<open>Python's \<open>==\<close> on these values: \<open>True == 1\<close> and \<open>False == 0\<close> hold, containers
  compare element by element, a dictionary by keys.\<close>

function py_eq :: "json \<Rightarrow> json \<Rightarrow> bool" where
  "py_eq JNull b = (case b of JNull \<Rightarrow> True | _ \<Rightarrow> False)"
| "py_eq (JBool x) b =
     (case b of JBool y \<Rightarrow> x = y | JInt n \<Rightarrow> (if x then 1 else 0) = n | _ \<Rightarrow> False)"
| "py_eq (JInt m) b =
     (case b of JInt n \<Rightarrow> m = n | JBool y \<Rightarrow> m = (if y then 1 else 0) | _ \<Rightarrow> False)"
| "py_eq (JStr s) b = (case b of JStr t \<Rightarrow> s = t | _ \<Rightarrow> False)"
| "py_eq (JArr xs) b =
     (case b of
        JArr ys \<Rightarrow> length xs = length ys \<and> list_all (\<lambda>(x, y). py_eq x y) (zip xs ys)
      | _ \<Rightarrow> False)"
| "py_eq (JObj kvs) b =
     (case b of
        JObj kws \<Rightarrow>
          list_all (\<lambda>k. case map_of kvs k of
                           None \<Rightarrow> False
                         | Some x \<Rightarrow> (case map_of kws k of None \<Rightarrow> False | Some y \<Rightarrow> py_eq x y))
                   (map fst kvs @ map fst kws)
      | _ \<Rightarrow> False)"
  by pat_completeness auto
termination
proof (relation "measure (\<lambda>(a, b). size a)", goal_cases)
  case 1
  show ?case by simp
next
  case (2 xs b ys p x y)
  then have "x \<in> set xs" by (auto dest: set_zip_leftD)
  then have "size x < Suc (size_list size xs)"
    by (simp add: less_Suc_eq_le size_list_estimation')
  then show ?case by simp
next
  case (3 kvs b kws k x y)
  then have "(k, x) \<in> set kvs" by (auto dest: map_of_SomeD)
  then have "size_prod (\<lambda>_. 0) size (k, x) \<le> size_list (size_prod (\<lambda>_. 0) size) kvs"
    by (rule size_list_estimation') simp
  then show ?case by simp
qed

text \<open>Truth value of a value in \<open>if batch:\<close>.\<close>

fun py_truthy :: "json \<Rightarrow> bool" where
  "py_truthy JNull = False"
| "py_truthy (JBool b) = b"
| "py_truthy (JInt n) = (n \<noteq> 0)"
| "py_truthy (JStr s) = (s \<noteq> [])"
| "py_truthy (JArr xs) = (xs \<noteq> [])"
| "py_truthy (JObj kvs) = (kvs \<noteq> [])"

text \<open>
  \<open>print(f'...{v}...')\<close> writes the text of the line to standard output, which encodes it
  with UTF-8 (the literals of the scripts hold emoji, so the output is taken to do so). The
  text of a \<open>str\<close> is the \<open>str\<close> itself, and the write raises \<open>UnicodeEncodeError\<close> when it
  holds a surrogate, which \<open>json.loads\<close> returns for an escape such as \<open>"\ud800"\<close>. The
  text of any other value can be written: \<open>None\<close>, \<open>True\<close>, a number, and the \<open>repr\<close> of
  a list or of a dictionary, which escapes the surrogates inside.
\<close>

definition str_printable :: "pystr \<Rightarrow> bool" where
  "str_printable s = (case encode s of Inl e \<Rightarrow> False | Inr bs \<Rightarrow> True)"

definition printable :: "json \<Rightarrow> bool" where
  "printable v = (case v of JStr s \<Rightarrow> str_printable s | _ \<Rightarrow> True)"

text \<open>\<open>b[key]\<close> with a \<open>str\<close> key: only a dictionary can be subscripted with one, and a
  missing key raises \<open>KeyError\<close>.\<close>

fun subscript :: "json \<Rightarrow> pystr \<Rightarrow> error + json" where
  "subscript (JObj kvs) k = (case map_of kvs k of None \<Rightarrow> Inl (KeyError k) | Some v \<Rightarrow> Inr v)"
| "subscript _ k = Inl TypeError"

text \<open>\<open>d.get(key, default)\<close>: only a dictionary has the method.\<close>

fun dict_get :: "json \<Rightarrow> pystr \<Rightarrow> json \<Rightarrow> error + json" where
  "dict_get (JObj kvs) k d = Inr (case map_of kvs k of None \<Rightarrow> d | Some v \<Rightarrow> v)"
| "dict_get _ k d = Inl AttributeError"

text \<open>What \<open>for b in batches\<close> runs over: the elements of a list, the keys of a
  dictionary, the characters of a string; anything else is not iterable.\<close>

fun py_iter :: "json \<Rightarrow> error + json list" where
  "py_iter (JArr xs) = Inr xs"
| "py_iter (JObj kvs) = Inr (map JStr (remdups (map fst kvs)))"
| "py_iter (JStr s) = Inr (map (\<lambda>c. JStr [c]) s)"
| "py_iter _ = Inl TypeError"

section \<open>The polling loop\<close>

text \<open>
  \<open>next((b for b in batches if b['id'] == batch_id), None)\<close>: the generator subscripts
  the entries in order and stops at the first whose \<open>id\<close> equals the target; entries
  behind it are never looked at. \<open>None\<close> is the default.
\<close>

fun first_match :: "json list \<Rightarrow> json \<Rightarrow> error + json" where
  "first_match [] batch_id = Inr JNull"
| "first_match (b # bs) batch_id =
     (case subscript b (ustr ''id'') of
        Inl e \<Rightarrow> Inl e
      | Inr v \<Rightarrow> if py_eq v batch_id then Inr b else first_match bs batch_id)"

definition next_batch :: "json \<Rightarrow> json \<Rightarrow> error + json" where
  "next_batch batches batch_id =
     (case py_iter batches of Inl e \<Rightarrow> Inl e | Inr bs \<Rightarrow> first_match bs batch_id)"

text \<open>
  What the scripts do to the outside world, in order. Every \<open>print\<close> statement of the
  scripts is one constructor of \<open>line\<close>, carrying the values its f-string interpolates.
\<close>

datatype line =
    Testing
  | Uploading
  | UploadOk json
  | InitialResponse json
  | Response json
  | Monitoring
  | TimeLine nat
  | StatusLine json
  | CurrentStepLine json
  | ClassificationLine json json
  | FinexioLine json
  | GoogleAddressLine json
  | MastercardLine json
  | AkkioLine json
  | CompletedSuccessfully
  | AllPhasesCompleted
  | Completed
  | NotFound json
  | FailedStatus int
  | UploadFailed int
  | ResponseText pystr
  | ErrorLine error

datatype event = Sleep nat | Post | Get | Print line

text \<open>How a block of statements ends: it runs to its end, leaves the enclosing loop
  with \<open>break\<close>, or raises.\<close>

datatype ctl = Normal | Break | Raise error

type_synonym run = "event list \<times> ctl"

definition emit :: "event \<Rightarrow> run \<Rightarrow> run" where
  "emit ev k = (ev # fst k, snd k)"

text \<open>
  Whether \<open>print\<close> can write a line: every \<open>str\<close> it interpolates must be. \<open>json.dumps\<close>
  escapes all that is not ASCII, the text of an exception of the model holds no surrogate
  (that of a \<open>KeyError\<close> is the \<open>repr\<close> of the key), and the other lines hold numbers or
  nothing.
\<close>

fun writable :: "line \<Rightarrow> bool" where
  "writable (UploadOk v) = printable v"
| "writable (StatusLine v) = printable v"
| "writable (CurrentStepLine v) = printable v"
| "writable (ClassificationLine v w) = (printable v \<and> printable w)"
| "writable (FinexioLine v) = printable v"
| "writable (GoogleAddressLine v) = printable v"
| "writable (MastercardLine v) = printable v"
| "writable (AkkioLine v) = printable v"
| "writable (NotFound v) = printable v"
| "writable (ResponseText s) = str_printable s"
| "writable _ = True"

text \<open>\<open>print(f'...')\<close> followed by the rest of the block: when an interpolated
  expression raises, or the line cannot be written, nothing is printed and the rest does
  not run.\<close>

definition say :: "error + line \<Rightarrow> run \<Rightarrow> run" where
  "say x k =
     (case x of
        Inl e \<Rightarrow> ([], Raise e)
      | Inr l \<Rightarrow> if writable l then emit (Print l) k else ([], Raise UnicodeEncodeError))"

definition fmt1 :: "(json \<Rightarrow> line) \<Rightarrow> error + json \<Rightarrow> error + line" where
  "fmt1 f x = (case x of Inl e \<Rightarrow> Inl e | Inr v \<Rightarrow> Inr (f v))"

definition fmt2 :: "(json \<Rightarrow> json \<Rightarrow> line) \<Rightarrow> error + json \<Rightarrow> error + json \<Rightarrow> error + line" where
  "fmt2 f x y =
     (case x of Inl e \<Rightarrow> Inl e
      | Inr v \<Rightarrow> (case y of Inl e \<Rightarrow> Inl e | Inr w \<Rightarrow> Inr (f v w)))"

text \<open>The eight \<open>print\<close> statements on a located batch (the same in both scripts),
  followed by the rest of the block.\<close>

definition print_snapshot :: "nat \<Rightarrow> json \<Rightarrow> run \<Rightarrow> run" where
  "print_snapshot i batch k =
     say (Inr (TimeLine (i * 10)))
    (say (fmt1 StatusLine (subscript batch (ustr ''status'')))
    (say (fmt1 CurrentStepLine (dict_get batch (ustr ''currentStep'') (JStr (ustr ''N/A''))))
    (say (fmt2 ClassificationLine
            (dict_get batch (ustr ''processedRecords'') (JInt 0))
            (dict_get batch (ustr ''totalRecords'') (JInt 0)))
    (say (fmt1 FinexioLine
            (dict_get batch (ustr ''finexioMatchingStatus'') (JStr (ustr ''pending''))))
    (say (fmt1 GoogleAddressLine
            (dict_get batch (ustr ''googleAddressStatus'') (JStr (ustr ''pending''))))
    (say (fmt1 MastercardLine
            (dict_get batch (ustr ''mastercardEnrichmentStatus'') (JStr (ustr ''pending''))))
    (say (fmt1 AkkioLine
            (dict_get batch (ustr ''akkioPredictionStatus'') (JStr (ustr ''pending''))))
     k)))))))"

text \<open>\<open>if batch['status'] == 'completed': ...; break\<close>, with the lines each script
  prints before the \<open>break\<close>.\<close>

definition check_completed :: "json \<Rightarrow> line list \<Rightarrow> run" where
  "check_completed batch ls =
     (case subscript batch (ustr ''status'') of
        Inl e \<Rightarrow> ([], Raise e)
      | Inr st \<Rightarrow>
          if py_eq st (JStr (ustr ''completed'')) then (map Print ls, Break)
          else ([], Normal))"

text \<open>One pass through the body of the loop of \<open>test-upload-simple.py\<close>. \<open>resp\<close> is
  what \<open>urlopen\<close>, \<open>read\<close>, \<open>decode\<close> and \<open>json.loads\<close> make of the server's answer: the
  parsed value, or the exception one of them raises.\<close>

definition attempt_simple :: "error + json \<Rightarrow> json \<Rightarrow> nat \<Rightarrow> run" where
  "attempt_simple resp batch_id i =
     emit (Sleep 10) (emit Get
       (case resp of
          Inl e \<Rightarrow> ([], Raise e)
        | Inr batches \<Rightarrow>
            (case next_batch batches batch_id of
               Inl e \<Rightarrow> ([], Raise e)
             | Inr batch \<Rightarrow>
                 if py_truthy batch then
                   print_snapshot i batch
                     (check_completed batch [CompletedSuccessfully, AllPhasesCompleted])
                 else say (Inr (NotFound batch_id)) ([], Normal))))"

text \<open>A response of the \<open>requests\<close> library: its status code, what \<open>.json()\<close> returns
  or raises, and its text.\<close>

record response =
  status_code :: int
  json_result :: "error + json"
  text_of :: pystr

text \<open>One pass through the body of the loop of \<open>test-upload.py\<close>. \<open>resp\<close> is the
  response of \<open>requests.get\<close>, or the exception it raises.\<close>

definition attempt_requests :: "error + response \<Rightarrow> json \<Rightarrow> nat \<Rightarrow> run" where
  "attempt_requests resp batch_id i =
     emit (Sleep 10) (emit Get
       (case resp of
          Inl e \<Rightarrow> ([], Raise e)
        | Inr status_response \<Rightarrow>
            if status_code status_response = 200 then
              (case json_result status_response of
                 Inl e \<Rightarrow> ([], Raise e)
               | Inr batches \<Rightarrow>
                   (case next_batch batches batch_id of
                      Inl e \<Rightarrow> ([], Raise e)
                    | Inr batch \<Rightarrow>
                        if py_truthy batch then
                          print_snapshot i batch (check_completed batch [Completed])
                        else ([], Normal)))
            else say (Inr (FailedStatus (status_code status_response))) ([], Normal)))"

text \<open>\<open>for i in <list>: body\<close>. The statement ends normally both when the list is
  used up and when the body leaves with \<open>break\<close>; an exception of the body ends it.\<close>

fun for_in :: "nat list \<Rightarrow> (nat \<Rightarrow> run) \<Rightarrow> run" where
  "for_in [] body = ([], Normal)"
| "for_in (i # is) body =
     (case body i of
        (tr, Normal) \<Rightarrow> (tr @ fst (for_in is body), snd (for_in is body))
      | (tr, Break) \<Rightarrow> (tr, Normal)
      | (tr, Raise e) \<Rightarrow> (tr, Raise e))"

text \<open>The loops of the two scripts. \<open>env i\<close> is the server's answer to the request of
  pass \<open>i\<close>.\<close>

definition poll_simple :: "(nat \<Rightarrow> error + json) \<Rightarrow> json \<Rightarrow> run" where
  "poll_simple env batch_id = for_in [0..<30] (\<lambda>i. attempt_simple (env i) batch_id i)"

definition poll_requests :: "(nat \<Rightarrow> error + response) \<Rightarrow> json \<Rightarrow> run" where
  "poll_requests env batch_id = for_in [0..<30] (\<lambda>i. attempt_requests (env i) batch_id i)"

text \<open>\<open>try: ... except Exception as e: print(e)\<close>: every exception of the model is an
  \<open>Exception\<close>, so the handler catches it, prints it and the script goes on.\<close>

definition try_except :: "run \<Rightarrow> run" where
  "try_except r = (case snd r of Raise e \<Rightarrow> (fst r @ [Print (ErrorLine e)], Normal) | _ \<Rightarrow> r)"

text \<open>Lines 59 to 94 of \<open>test-upload-simple.py\<close>. \<open>upload\<close> is what \<open>urlopen\<close>, \<open>read\<close>,
  \<open>decode\<close> and \<open>json.loads\<close> make of the answer to the POST; \<open>env\<close> gives the answers
  to the status requests.\<close>

definition upload_and_poll_simple :: "error + json \<Rightarrow> (nat \<Rightarrow> error + json) \<Rightarrow> run" where
  "upload_and_poll_simple upload env =
     try_except (emit Post
       (case upload of
          Inl e \<Rightarrow> ([], Raise e)
        | Inr result \<Rightarrow>
            (case dict_get result (ustr ''id'') JNull of
               Inl e \<Rightarrow> ([], Raise e)
             | Inr batch_id \<Rightarrow>
                 say (Inr (UploadOk batch_id))
                (say (Inr (InitialResponse result))
                (say (Inr Monitoring)
                (poll_simple env batch_id))))))"

text \<open>Lines 16 to 52 of \<open>test-upload.py\<close>, with the file open. \<open>upload\<close> is the response
  of \<open>requests.post\<close>, or the exception it raises.\<close>

definition upload_and_poll_requests :: "error + response \<Rightarrow> (nat \<Rightarrow> error + response) \<Rightarrow> run" where
  "upload_and_poll_requests upload env =
     say (Inr Uploading) (emit Post
       (case upload of
          Inl e \<Rightarrow> ([], Raise e)
        | Inr response \<Rightarrow>
            if status_code response = 200 then
              (case json_result response of
                 Inl e \<Rightarrow> ([], Raise e)
               | Inr result \<Rightarrow>
                   (case dict_get result (ustr ''batchId'') JNull of
                      Inl e \<Rightarrow> ([], Raise e)
                    | Inr batch_id \<Rightarrow>
                        say (Inr (UploadOk batch_id))
                       (say (Inr (Response result))
                       (say (Inr Monitoring)
                       (poll_requests env batch_id)))))
            else
              say (Inr (UploadFailed (status_code response)))
             (say (Inr (ResponseText (text_of response)))
             ([], Normal))))"

section \<open>Vocabulary of the properties\<close>

text \<open>An entry whose \<open>id\<close> equals the target, as the search sees it.\<close>

definition id_is :: "json \<Rightarrow> json \<Rightarrow> bool" where
  "id_is batch_id b =
     (case subscript b (ustr ''id'') of Inl e \<Rightarrow> False | Inr v \<Rightarrow> py_eq v batch_id)"

text \<open>A batch object as the status endpoint describes it: a dictionary with at least
  \<open>id\<close> and \<open>status\<close>; a batch list is a list of them.\<close>

definition batch_object :: "json \<Rightarrow> bool" where
  "batch_object b =
     (case b of
        JObj kvs \<Rightarrow> map_of kvs (ustr ''id'') \<noteq> None \<and> map_of kvs (ustr ''status'') \<noteq> None
      | _ \<Rightarrow> False)"

definition batch_list :: "json \<Rightarrow> bool" where
  "batch_list batches = (case batches of JArr bs \<Rightarrow> list_all batch_object bs | _ \<Rightarrow> False)"

definition holds_target :: "json \<Rightarrow> json \<Rightarrow> bool" where
  "holds_target batches batch_id =
     (case batches of JArr bs \<Rightarrow> list_ex (id_is batch_id) bs | _ \<Rightarrow> False)"

text \<open>The status of the target batch in a list: that of the first entry whose \<open>id\<close>
  equals the target.\<close>

definition target_status :: "json \<Rightarrow> json \<Rightarrow> json option" where
  "target_status batches batch_id =
     (case batches of
        JArr bs \<Rightarrow>
          (case find (id_is batch_id) bs of
             None \<Rightarrow> None
           | Some b \<Rightarrow> (case subscript b (ustr ''status'') of Inl e \<Rightarrow> None | Inr st \<Rightarrow> Some st))
      | _ \<Rightarrow> None)"

text \<open>The values that the snapshot of a batch prints can all be written; and the same of
  the target batch of a list, when it has one.\<close>

definition printable_fields :: "json \<Rightarrow> bool" where
  "printable_fields batch =
     (case batch of
        JObj kvs \<Rightarrow>
          list_all (\<lambda>k. case map_of kvs k of None \<Rightarrow> True | Some v \<Rightarrow> printable v)
            [ustr ''status'', ustr ''currentStep'', ustr ''processedRecords'',
             ustr ''totalRecords'', ustr ''finexioMatchingStatus'', ustr ''googleAddressStatus'',
             ustr ''mastercardEnrichmentStatus'', ustr ''akkioPredictionStatus'']
      | _ \<Rightarrow> True)"

definition target_printable :: "json \<Rightarrow> json \<Rightarrow> bool" where
  "target_printable batches batch_id =
     (case batches of
        JArr bs \<Rightarrow>
          (case find (id_is batch_id) bs of None \<Rightarrow> True | Some b \<Rightarrow> printable_fields b)
      | _ \<Rightarrow> True)"

text \<open>The durations of the sleeps of a run, in order.\<close>

definition sleeps :: "event list \<Rightarrow> nat list" where
  "sleeps tr = concat (map (\<lambda>ev. case ev of Sleep n \<Rightarrow> [n] | _ \<Rightarrow> []) tr)"

text \<open>A status answer of \<open>requests.get\<close> with code 200 and a body that parses.\<close>

definition ok_response :: "json \<Rightarrow> error + response" where
  "ok_response batches = Inr \<lparr>status_code = 200, json_result = Inr batches, text_of = []\<rparr>"

text \<open>Sample answers of the status endpoint: the batch \<open>b1\<close> with a given status, and a
  sequence of lists in which \<open>b1\<close> is \<open>processing\<close> except in answer \<open>k\<close>, where it is
  \<open>completed\<close>.\<close>

definition sample_batch :: "pystr \<Rightarrow> json" where
  "sample_batch st = JObj [(ustr ''id'', JStr (ustr ''b1'')), (ustr ''status'', JStr st)]"

definition completes_at :: "nat \<Rightarrow> nat \<Rightarrow> json" where
  "completes_at k j =
     JArr [sample_batch (if j = k then ustr ''completed'' else ustr ''processing'')]"

text \<open>A sequence of answers of which the first shows \<open>b1\<close> with a status that is a lone
  surrogate, and the others show it as \<open>completed\<close>.\<close>

definition surrogate_first :: "nat \<Rightarrow> json" where
  "surrogate_first j = JArr [sample_batch (if j = 0 then [55296] else ustr ''completed'')]"

definition never_listed :: "nat \<Rightarrow> json" where
  "never_listed j = JArr [JObj [(ustr ''id'', JStr (ustr ''b2'')), (ustr ''status'', JStr (ustr ''completed''))]]"

text \<open>A server that cannot be reached when polled.\<close>

definition unreachable :: "nat \<Rightarrow> error + response" where
  "unreachable j = Inl ConnectionError"

section \<open>The multipart encoder of \<open>test-upload-simple.py\<close>\<close>

text \<open>\<open>bytes.hex()\<close>: two lower-case hexadecimal digits for every octet.\<close>

definition hex_digit :: "nat \<Rightarrow> nat" where
  "hex_digit d = (if d < 10 then 48 + d else 87 + d)"

definition hex :: "bytes \<Rightarrow> pystr" where
  "hex bs = concat (map (\<lambda>b. [hex_digit (of_char b div 16), hex_digit (of_char b mod 16)]) bs)"

text \<open>The characters \<open>\r\n\<close> and \<open>"\<close> of the f-strings, and \<open>b'\r\n'\<close>.\<close>

definition crlf :: bytes where
  "crlf = [CHR 0x0D, CHR 0x0A]"

definition CRLF :: pystr where
  "CRLF = ustr crlf"

definition DQ :: pystr where
  "DQ = ustr [CHR 0x22]"

text \<open>\<open>body.write(s.encode())\<close> on the buffer \<open>body\<close>, and the sequencing of statements
  that may raise.\<close>

definition write_str :: "pystr \<Rightarrow> bytes \<Rightarrow> error + bytes" where
  "write_str s body = (case encode s of Inl e \<Rightarrow> Inl e | Inr bs \<Rightarrow> Inr (body @ bs))"

definition and_then :: "error + 'a \<Rightarrow> ('a \<Rightarrow> error + 'b) \<Rightarrow> error + 'b" where
  "and_then r f = (case r of Inl e \<Rightarrow> Inl e | Inr x \<Rightarrow> f x)"

text \<open>The loop over \<open>fields.items()\<close> (lines 16 to 19). A dictionary is given by its items
  in insertion order, each key once.\<close>

fun add_fields :: "pystr \<Rightarrow> (pystr \<times> pystr) list \<Rightarrow> bytes \<Rightarrow> error + bytes" where
  "add_fields boundary [] body = Inr body"
| "add_fields boundary ((name, value) # fields_items) body =
     and_then (write_str (ustr ''--'' @ boundary @ CRLF) body) (\<lambda>body.
     and_then (write_str (ustr ''Content-Disposition: form-data; name='' @ DQ @ name @ DQ
                            @ CRLF @ CRLF) body) (\<lambda>body.
     and_then (write_str (value @ CRLF) body) (\<lambda>body.
     add_fields boundary fields_items body)))"

text \<open>The loop over \<open>files.items()\<close> (lines 22 to 27).\<close>

fun add_files :: "pystr \<Rightarrow> (pystr \<times> pystr \<times> bytes) list \<Rightarrow> bytes \<Rightarrow> error + bytes" where
  "add_files boundary [] body = Inr body"
| "add_files boundary ((name, filename, file_data) # files_items) body =
     and_then (write_str (ustr ''--'' @ boundary @ CRLF) body) (\<lambda>body.
     and_then (write_str (ustr ''Content-Disposition: form-data; name='' @ DQ @ name @ DQ
                            @ ustr ''; filename='' @ DQ @ filename @ DQ @ CRLF) body) (\<lambda>body.
     and_then (write_str (ustr ''Content-Type: text/csv'' @ CRLF @ CRLF) body) (\<lambda>body.
     add_files boundary files_items (body @ file_data @ crlf))))"

text \<open>\<open>encode_multipart_formdata(fields, files)\<close>. The sixteen octets that \<open>os.urandom\<close>
  returns are the argument \<open>rnd\<close>.\<close>

definition encode_multipart_formdata ::
  "bytes \<Rightarrow> (pystr \<times> pystr) list \<Rightarrow> (pystr \<times> pystr \<times> bytes) list \<Rightarrow> error + bytes \<times> pystr" where
  "encode_multipart_formdata rnd fields_items files_items =
     (let boundary = ustr ''----WebKitFormBoundary'' @ hex rnd in
      and_then (add_fields boundary fields_items []) (\<lambda>body.
      and_then (add_files boundary files_items body) (\<lambda>body.
      and_then (write_str (ustr ''--'' @ boundary @ ustr ''--'' @ CRLF) body) (\<lambda>body.
      Inr (body, ustr ''multipart/form-data; boundary='' @ boundary)))))"

section \<open>A reference decoder for multipart bodies\<close>

text \<open>
  The repository has no decoder. The round trip is stated against this one, which follows
  the grammar of RFC 2046, section 5.1.1: the parts lie between delimiter lines
  \<open>CRLF "--" boundary\<close> (the first may stand at the very beginning), the close delimiter has
  \<open>--\<close> appended, and inside a part the header block ends at the first empty line.
\<close>

definition dash_boundary :: "bytes \<Rightarrow> bytes" where
  "dash_boundary boundary = ''--'' @ boundary"

definition delimiter :: "bytes \<Rightarrow> bytes" where
  "delimiter boundary = crlf @ dash_boundary boundary"

text \<open>\<open>find_sub pat xs\<close> splits \<open>xs\<close> around the first occurrence of \<open>pat\<close>.\<close>

fun find_sub :: "bytes \<Rightarrow> bytes \<Rightarrow> (bytes \<times> bytes) option" where
  "find_sub pat [] = (if pat = [] then Some ([], []) else None)"
| "find_sub pat (x # xs) =
     (if prefix pat (x # xs) then Some ([], drop (length pat) (x # xs))
      else map_option (\<lambda>(a, b). (x # a, b)) (find_sub pat xs))"

text \<open>A part is its header block and its content. A part that begins with an empty line
  has no headers; one without an empty line has no content.\<close>

definition split_part :: "bytes \<Rightarrow> bytes \<times> bytes" where
  "split_part part =
     (if prefix crlf part then ([], drop 2 part)
      else (case find_sub (crlf @ crlf) part of None \<Rightarrow> (part, []) | Some hc \<Rightarrow> hc))"

text \<open>\<open>parse_parts boundary rest\<close> reads what follows a dash-boundary: the close marker
  \<open>--\<close>, or the end of the delimiter line, a part, and the next delimiter.\<close>

function parse_parts :: "bytes \<Rightarrow> bytes \<Rightarrow> (bytes \<times> bytes) list option" where
  "parse_parts boundary rest =
     (if prefix ''--'' rest then Some []
      else if prefix crlf rest then
        (case find_sub (delimiter boundary) (drop 2 rest) of
           None \<Rightarrow> None
         | Some (part, rest') \<Rightarrow> map_option ((#) (split_part part)) (parse_parts boundary rest'))
      else None)"
  by pat_completeness auto
termination
proof (relation "measure (\<lambda>(boundary, rest). length rest)", goal_cases)
  case 1
  show ?case by simp
next
  case (2 boundary rest x part rest')
  have shorter: "find_sub pat xs = Some (a, b) \<Longrightarrow> length b \<le> length xs"
    for pat xs :: bytes and a b
  proof (induction xs arbitrary: a)
    case Nil
    then show ?case by (simp split: if_splits)
  next
    case (Cons y ys)
    then show ?case by (fastforce split: if_splits)
  qed
  from 2 have "length rest' \<le> length (drop 2 rest)" 
    by (auto dest: shorter)
  moreover from 2 have "2 \<le> length rest" by (auto simp: crlf_def prefix_def)
  ultimately show ?case by simp
qed

declare parse_parts.simps [simp del]

definition parse_multipart :: "bytes \<Rightarrow> bytes \<Rightarrow> (bytes \<times> bytes) list option" where
  "parse_multipart boundary body =
     (if prefix (dash_boundary boundary) body
      then parse_parts boundary (drop (length (dash_boundary boundary)) body)
      else (case find_sub (delimiter boundary) body of
              None \<Rightarrow> None
            | Some (preamble, rest) \<Rightarrow> parse_parts boundary rest))"

text \<open>The receiving end: the boundary is what follows the thirty characters
  \<open>multipart/form-data; boundary=\<close> of the \<open>Content-Type\<close> header, and the body is split
  with it.\<close>

definition received :: "bytes \<times> pystr \<Rightarrow> (bytes \<times> bytes) list option" where
  "received req =
     (case req of (body, content_type) \<Rightarrow>
        if take 30 content_type = ustr ''multipart/form-data; boundary=''
        then parse_multipart (map char_of (drop 30 content_type)) body
        else None)"

text \<open>The shape of one part on the wire, and the header blocks the encoder writes for a
  field and for a file, given the encoded names.\<close>

definition delimited_part :: "bytes \<Rightarrow> bytes \<times> bytes \<Rightarrow> bytes" where
  "delimited_part boundary p =
     dash_boundary boundary @ crlf @ fst p @ crlf @ crlf @ snd p @ crlf"

definition field_header :: "bytes \<Rightarrow> bytes" where
  "field_header name = ''Content-Disposition: form-data; name='' @ [CHR 0x22] @ name @ [CHR 0x22]"

definition file_header :: "bytes \<Rightarrow> bytes \<Rightarrow> bytes" where
  "file_header name filename =
     ''Content-Disposition: form-data; name='' @ [CHR 0x22] @ name @ [CHR 0x22]
       @ ''; filename='' @ [CHR 0x22] @ filename @ [CHR 0x22] @ crlf @ ''Content-Type: text/csv''"

text \<open>The boundary token as octets.\<close>

definition boundary_bytes :: "bytes \<Rightarrow> bytes" where
  "boundary_bytes rnd = ''----WebKitFormBoundary'' @ map char_of (hex rnd)"

text \<open>A part that carries a field, and a part that carries a file.\<close>

definition field_part :: "pystr \<times> pystr \<Rightarrow> bytes \<times> bytes \<Rightarrow> bool" where
  "field_part f p =
     (case encode (fst f) of
        Inl e \<Rightarrow> False
      | Inr name \<Rightarrow> fst p = field_header name \<and> encode (snd f) = Inr (snd p))"

definition file_part :: "pystr \<times> pystr \<times> bytes \<Rightarrow> bytes \<times> bytes \<Rightarrow> bool" where
  "file_part f p =
     (case (encode (fst f), encode (fst (snd f))) of
        (Inr name, Inr filename) \<Rightarrow> fst p = file_header name filename \<and> snd p = snd (snd f)
      | _ \<Rightarrow> False)"

text \<open>A \<open>str\<close> that \<open>encode\<close> accepts: its code points are below \<open>0x110000\<close>, as those of
  every \<open>str\<close> are, and none is a surrogate.\<close>

definition encodable :: "pystr \<Rightarrow> bool" where
  "encodable s = list_all (\<lambda>c. c < 55296 \<or> 57344 \<le> c \<and> c < 1114112) s"

text \<open>The fields of the script (lines 38 to 43), a sample of its \<open>files\<close>, and the draw
  of sixteen zero octets.\<close>

definition script_fields :: "(pystr \<times> pystr) list" where
  "script_fields =
     [(ustr ''enableFinexio'', ustr ''true''), (ustr ''enableMastercard'', ustr ''true''),
      (ustr ''enableGoogleAddress'', ustr ''true''), (ustr ''enableAkkio'', ustr ''true'')]"

definition sample_file :: "pystr \<times> pystr \<times> bytes" where
  "sample_file =
     (ustr ''file'', ustr ''test-enrichment-flow.csv'', ''a,b'' @ crlf @ ''1,2'' @ crlf)"

definition zero_rnd :: bytes where
  "zero_rnd = replicate 16 (CHR 0x00)"

text \<open>The whole of \<open>test-upload-simple.py\<close>, from line 32 on, once the file has been
  read: the encoder runs outside the \<open>try\<close>, so an exception of it ends the script.\<close>

definition main_simple ::
  "bytes \<Rightarrow> bytes \<Rightarrow> error + json \<Rightarrow> (nat \<Rightarrow> error + json) \<Rightarrow> run" where
  "main_simple rnd file_data upload env =
     say (Inr Testing)
       (case encode_multipart_formdata rnd script_fields
               [(ustr ''file'', ustr ''test-enrichment-flow.csv'', file_data)] of
          Inl e \<Rightarrow> ([], Raise e)
        | Inr (body, content_type) \<Rightarrow> upload_and_poll_simple upload env)"

text \<open>A part that the decoder gives back as it was written with boundary \<open>bb\<close>: the
  delimiter is first found behind the part, and the part splits into its header block and
  its content.\<close>

definition splits_back :: "bytes \<Rightarrow> bytes \<times> bytes \<Rightarrow> bool" where
  "splits_back bb p =
     ((\<forall>rest. find_sub (delimiter bb) (fst p @ crlf @ crlf @ snd p @ delimiter bb @ rest) =
               Some (fst p @ crlf @ crlf @ snd p, rest)) \<and>
      split_part (fst p @ crlf @ crlf @ snd p) = p)"

text \<open>What the receiving end recovers from a call of the encoder: the contents of the
  parts, in order.\<close>

definition round_trip ::
  "bytes \<Rightarrow> (pystr \<times> pystr) list \<Rightarrow> (pystr \<times> pystr \<times> bytes) list \<Rightarrow> bytes list option" where
  "round_trip rnd fields_items files_items =
     (case encode_multipart_formdata rnd fields_items files_items of
        Inl e \<Rightarrow> None
      | Inr req \<Rightarrow> map_option (map snd) (received req))"

text \<open>The parts that the receiving end finds in what a call of the encoder returns, each
  with its header block and its content.\<close>

definition decoded_parts ::
  "bytes \<Rightarrow> (pystr \<times> pystr) list \<Rightarrow> (pystr \<times> pystr \<times> bytes) list \<Rightarrow>
   (bytes \<times> bytes) list option" where
  "decoded_parts rnd fields_items files_items =
     (case encode_multipart_formdata rnd fields_items files_items of
        Inl e \<Rightarrow> None
      | Inr req \<Rightarrow> received req)"

section \<open>Properties of the encoding\<close>

lemma utf8_ascii: "c < 128 \<Longrightarrow> utf8 c = Inr [char_of c]"
  by (simp add: utf8_def)

lemma encode_ascii: "\<forall>c\<in>set s. c < 128 \<Longrightarrow> encode s = Inr (map char_of s)"
  by (induction s) (simp_all add: utf8_ascii)

lemma encode_append:
  "encode (xs @ ys) =
     (case encode xs of
        Inl e \<Rightarrow> Inl e
      | Inr a \<Rightarrow> (case encode ys of Inl e \<Rightarrow> Inl e | Inr b \<Rightarrow> Inr (a @ b)))"
  by (induction xs) (simp_all split: sum.splits)

lemma encode_ustr: "\<forall>c\<in>set s. of_char c < (128::nat) \<Longrightarrow> encode (ustr s) = Inr s"
  by (simp add: encode_ascii ustr_def comp_def)

lemma ustr_eq_iff: "ustr a = ustr b \<longleftrightarrow> a = b"
proof -
  have "inj (of_char :: char \<Rightarrow> nat)" by (rule injI) simp
  then show ?thesis by (simp add: ustr_def inj_map_eq_map)
qed

lemma printable_ustr: "\<forall>c\<in>set s. of_char c < (128::nat) \<Longrightarrow> printable (JStr (ustr s))"
  by (simp add: printable_def str_printable_def encode_ustr)

lemma str_printable_ustr: "\<forall>c\<in>set s. of_char c < (128::nat) \<Longrightarrow> str_printable (ustr s)"
  by (simp add: str_printable_def encode_ustr)

lemma printable_defaults:
  "printable (JStr (ustr ''N/A''))" "printable (JStr (ustr ''pending''))" "printable (JInt n)"
  "printable JNull"
  by (simp_all add: printable_ustr) (simp_all add: printable_def)

lemma surrogate_unprintable: "\<not> printable (JStr [55296])"
  by (simp add: printable_def str_printable_def utf8_def)

section \<open>Properties of the snapshot\<close>

lemma shown_printable:
  "(case map_of kvs k of None \<Rightarrow> True | Some v \<Rightarrow> printable v) \<Longrightarrow> printable d \<Longrightarrow>
   printable (case map_of kvs k of None \<Rightarrow> d | Some v \<Rightarrow> v)"
  by (simp split: option.splits)

lemma shown_printable_iff:
  "printable d \<Longrightarrow>
   printable (case m of None \<Rightarrow> d | Some v \<Rightarrow> v) \<longleftrightarrow>
     (case m of None \<Rightarrow> True | Some v \<Rightarrow> printable v)"
  by (simp split: option.splits)

text \<open>The snapshot of a dictionary with a \<open>status\<close>, all of whose printed values can be
  written.\<close>

lemma print_snapshot_obj:
  assumes "map_of kvs (ustr ''status'') = Some st" "printable_fields (JObj kvs)"
  shows "print_snapshot i (JObj kvs) k =
         (map Print
           [TimeLine (i * 10), StatusLine st,
            CurrentStepLine (case map_of kvs (ustr ''currentStep'') of
                               None \<Rightarrow> JStr (ustr ''N/A'') | Some v \<Rightarrow> v),
            ClassificationLine
              (case map_of kvs (ustr ''processedRecords'') of None \<Rightarrow> JInt 0 | Some v \<Rightarrow> v)
              (case map_of kvs (ustr ''totalRecords'') of None \<Rightarrow> JInt 0 | Some v \<Rightarrow> v),
            FinexioLine (case map_of kvs (ustr ''finexioMatchingStatus'') of
                           None \<Rightarrow> JStr (ustr ''pending'') | Some v \<Rightarrow> v),
            GoogleAddressLine (case map_of kvs (ustr ''googleAddressStatus'') of
                           None \<Rightarrow> JStr (ustr ''pending'') | Some v \<Rightarrow> v),
            MastercardLine (case map_of kvs (ustr ''mastercardEnrichmentStatus'') of
                           None \<Rightarrow> JStr (ustr ''pending'') | Some v \<Rightarrow> v),
            AkkioLine (case map_of kvs (ustr ''akkioPredictionStatus'') of
                           None \<Rightarrow> JStr (ustr ''pending'') | Some v \<Rightarrow> v)] @ fst k,
          snd k)"
proof -
  from assms have "printable st" by (simp add: printable_fields_def)
  moreover from assms(2) have
    "printable (case map_of kvs (ustr ''currentStep'') of None \<Rightarrow> JStr (ustr ''N/A'') | Some v \<Rightarrow> v)"
    "printable (case map_of kvs (ustr ''processedRecords'') of None \<Rightarrow> JInt 0 | Some v \<Rightarrow> v)"
    "printable (case map_of kvs (ustr ''totalRecords'') of None \<Rightarrow> JInt 0 | Some v \<Rightarrow> v)"
    "printable (case map_of kvs (ustr ''finexioMatchingStatus'') of
                  None \<Rightarrow> JStr (ustr ''pending'') | Some v \<Rightarrow> v)"
    "printable (case map_of kvs (ustr ''googleAddressStatus'') of
                  None \<Rightarrow> JStr (ustr ''pending'') | Some v \<Rightarrow> v)"
    "printable (case map_of kvs (ustr ''mastercardEnrichmentStatus'') of
                  None \<Rightarrow> JStr (ustr ''pending'') | Some v \<Rightarrow> v)"
    "printable (case map_of kvs (ustr ''akkioPredictionStatus'') of
                  None \<Rightarrow> JStr (ustr ''pending'') | Some v \<Rightarrow> v)"
    by (simp_all add: printable_fields_def shown_printable printable_defaults)
  ultimately show ?thesis
    using assms(1) by (simp add: print_snapshot_def say_def emit_def fmt1_def fmt2_def)
qed

lemma print_snapshot_no_status:
  "map_of kvs (ustr ''status'') = None \<Longrightarrow>
   print_snapshot i (JObj kvs) k =
     ([Print (TimeLine (i * 10))], Raise (KeyError (ustr ''status'')))"
  by (simp add: print_snapshot_def say_def emit_def fmt1_def)

lemma snd_say:
  "snd (say x k) =
     (case x of Inl e \<Rightarrow> Raise e
      | Inr l \<Rightarrow> if writable l then snd k else Raise UnicodeEncodeError)"
  by (simp add: say_def emit_def split: sum.splits)

text \<open>How the snapshot of a dictionary ends.\<close>

lemma print_snapshot_outcome:
  "snd (print_snapshot i (JObj kvs) k) =
     (case map_of kvs (ustr ''status'') of
        None \<Rightarrow> Raise (KeyError (ustr ''status''))
      | Some st \<Rightarrow> if printable_fields (JObj kvs) then snd k else Raise UnicodeEncodeError)"
proof (cases "map_of kvs (ustr ''status'')")
  case None
  then show ?thesis by (simp add: print_snapshot_no_status)
next
  case (Some st)
  show ?thesis
  proof (cases "printable_fields (JObj kvs)")
    case True
    with Some show ?thesis by (simp add: print_snapshot_obj)
  next
    case False
    define cs where "cs = (case map_of kvs (ustr ''currentStep'') of
                             None \<Rightarrow> JStr (ustr ''N/A'') | Some v \<Rightarrow> v)"
    define pr where "pr = (case map_of kvs (ustr ''processedRecords'') of
                             None \<Rightarrow> JInt 0 | Some v \<Rightarrow> v)"
    define tr where "tr = (case map_of kvs (ustr ''totalRecords'') of
                             None \<Rightarrow> JInt 0 | Some v \<Rightarrow> v)"
    define fx where "fx = (case map_of kvs (ustr ''finexioMatchingStatus'') of
                             None \<Rightarrow> JStr (ustr ''pending'') | Some v \<Rightarrow> v)"
    define ga where "ga = (case map_of kvs (ustr ''googleAddressStatus'') of
                             None \<Rightarrow> JStr (ustr ''pending'') | Some v \<Rightarrow> v)"
    define mc where "mc = (case map_of kvs (ustr ''mastercardEnrichmentStatus'') of
                             None \<Rightarrow> JStr (ustr ''pending'') | Some v \<Rightarrow> v)"
    define ak where "ak = (case map_of kvs (ustr ''akkioPredictionStatus'') of
                             None \<Rightarrow> JStr (ustr ''pending'') | Some v \<Rightarrow> v)"
    have chain: "snd (print_snapshot i (JObj kvs) k) =
        (if printable st then
           if printable cs then
             if printable pr \<and> printable tr then
               if printable fx then
                 if printable ga then
                   if printable mc then
                     if printable ak then snd k else Raise UnicodeEncodeError
                   else Raise UnicodeEncodeError
                 else Raise UnicodeEncodeError
               else Raise UnicodeEncodeError
             else Raise UnicodeEncodeError
           else Raise UnicodeEncodeError
         else Raise UnicodeEncodeError)"
      unfolding cs_def pr_def tr_def fx_def ga_def mc_def ak_def
      using Some by (simp add: print_snapshot_def snd_say fmt1_def fmt2_def)
    have "printable_fields (JObj kvs) \<longleftrightarrow>
        printable st \<and> printable cs \<and> printable pr \<and> printable tr \<and> printable fx \<and>
        printable ga \<and> printable mc \<and> printable ak"
      unfolding cs_def pr_def tr_def fx_def ga_def mc_def ak_def
      using Some by (simp add: printable_fields_def shown_printable_iff printable_defaults)
    with False chain Some show ?thesis by auto
  qed
qed

text \<open>
  C7 (as amended). A located batch object that has a \<open>status\<close>, and whose printed values can
  all be written (no string among them holds a lone surrogate), is printed without failing,
  whatever else it holds: the eight lines come out in the order of the source, and each of
  \<open>currentStep\<close>, \<open>processedRecords\<close>, \<open>totalRecords\<close> and the four enrichment
  statuses that the object lacks is shown as its placeholder: \<open>N/A\<close>, \<open>0\<close>, \<open>0\<close>
  and \<open>pending\<close>. When one of the printed values cannot be written, the snapshot ends
  with \<open>UnicodeEncodeError\<close>.
\<close>

theorem snapshot_defaults:
  assumes "map_of kvs (ustr ''status'') = Some st"
  shows "(printable_fields (JObj kvs) \<longrightarrow>
          print_snapshot i (JObj kvs) k =
            (map Print
              [TimeLine (i * 10), StatusLine st,
               CurrentStepLine (case map_of kvs (ustr ''currentStep'') of
                                  None \<Rightarrow> JStr (ustr ''N/A'') | Some v \<Rightarrow> v),
               ClassificationLine
                 (case map_of kvs (ustr ''processedRecords'') of None \<Rightarrow> JInt 0 | Some v \<Rightarrow> v)
                 (case map_of kvs (ustr ''totalRecords'') of None \<Rightarrow> JInt 0 | Some v \<Rightarrow> v),
               FinexioLine (case map_of kvs (ustr ''finexioMatchingStatus'') of
                              None \<Rightarrow> JStr (ustr ''pending'') | Some v \<Rightarrow> v),
               GoogleAddressLine (case map_of kvs (ustr ''googleAddressStatus'') of
                              None \<Rightarrow> JStr (ustr ''pending'') | Some v \<Rightarrow> v),
               MastercardLine (case map_of kvs (ustr ''mastercardEnrichmentStatus'') of
                              None \<Rightarrow> JStr (ustr ''pending'') | Some v \<Rightarrow> v),
               AkkioLine (case map_of kvs (ustr ''akkioPredictionStatus'') of
                              None \<Rightarrow> JStr (ustr ''pending'') | Some v \<Rightarrow> v)] @ fst k,
             snd k)) \<and>
         (\<not> printable_fields (JObj kvs) \<longrightarrow>
          snd (print_snapshot i (JObj kvs) k) = Raise UnicodeEncodeError)"
  using assms by (simp add: print_snapshot_obj print_snapshot_outcome)

theorem snapshot_defaults_witness:
  "map_of [(ustr ''id'', JStr (ustr ''b1'')), (ustr ''status'', JStr (ustr ''processing''))]
       (ustr ''status'') = Some (JStr (ustr ''processing'')) \<and>
   printable_fields
       (JObj [(ustr ''id'', JStr (ustr ''b1'')), (ustr ''status'', JStr (ustr ''processing''))]) \<and>
   print_snapshot 3
       (JObj [(ustr ''id'', JStr (ustr ''b1'')), (ustr ''status'', JStr (ustr ''processing''))])
       ([], Normal) =
     (map Print
        [TimeLine 30, StatusLine (JStr (ustr ''processing'')),
         CurrentStepLine (JStr (ustr ''N/A'')),
         ClassificationLine (JInt 0) (JInt 0),
         FinexioLine (JStr (ustr ''pending'')),
         GoogleAddressLine (JStr (ustr ''pending'')),
         MastercardLine (JStr (ustr ''pending'')),
         AkkioLine (JStr (ustr ''pending''))], Normal)"
proof -
  have h: "map_of [(ustr ''id'', JStr (ustr ''b1'')), (ustr ''status'', JStr (ustr ''processing''))]
       (ustr ''status'') = Some (JStr (ustr ''processing''))"
    by (simp add: ustr_eq_iff)
  have "printable (JStr (ustr ''processing''))" by (simp add: printable_ustr)
  then have p: "printable_fields
       (JObj [(ustr ''id'', JStr (ustr ''b1'')), (ustr ''status'', JStr (ustr ''processing''))])"
    by (simp add: printable_fields_def ustr_eq_iff)
  show ?thesis
    using h p snapshot_defaults [OF h, of 3 "([], Normal)"] by (simp add: ustr_eq_iff)
qed

text \<open>The claim as stated fails: the batch \<open>{"id": "b1", "status": "\ud800"}\<close> has \<open>id\<close>
  and \<open>status\<close> and lacks the other fields, and its snapshot raises after the first line,
  because the status cannot be written.\<close>

theorem unprintable_status_counterexample:
  "print_snapshot 0 (JObj [(ustr ''id'', JStr (ustr ''b1'')), (ustr ''status'', JStr [55296])])
       ([], Normal) =
     ([Print (TimeLine 0)], Raise UnicodeEncodeError)"
  by (simp add: print_snapshot_def say_def emit_def fmt1_def ustr_def printable_def
      str_printable_def utf8_def)

section \<open>Properties of the loop\<close>

lemma for_in_normal:
  "\<forall>i\<in>set js. snd (body i) = Normal \<Longrightarrow>
   for_in js body = (concat (map (\<lambda>i. fst (body i)) js), Normal)"
  by (induction js) (auto split: prod.splits ctl.splits)

lemma for_in_break:
  "\<forall>i\<in>set pre. snd (body i) = Normal \<Longrightarrow> snd (body k) = Break \<Longrightarrow>
   for_in (pre @ k # post) body = (concat (map (\<lambda>i. fst (body i)) pre) @ fst (body k), Normal)"
  by (induction pre) (auto split: prod.splits ctl.splits)

lemma for_in_raise:
  "\<forall>i\<in>set pre. snd (body i) = Normal \<Longrightarrow> snd (body k) = Raise e \<Longrightarrow>
   for_in (pre @ k # post) body = (concat (map (\<lambda>i. fst (body i)) pre) @ fst (body k), Raise e)"
  by (induction pre) (auto split: prod.splits ctl.splits)

lemma for_in_never_break: "snd (for_in js body) \<noteq> Break"
  by (induction js) (auto split: prod.splits ctl.splits)

lemma py_eq_JStr: "py_eq v (JStr s) \<longleftrightarrow> v = JStr s"
  by (cases v) auto

lemma first_match_find:
  "list_all batch_object bs \<Longrightarrow>
   first_match bs t = Inr (case find (id_is t) bs of None \<Rightarrow> JNull | Some b \<Rightarrow> b)"
  by (induction bs) (auto simp: batch_object_def id_is_def split: json.splits)

lemma find_batch_object:
  "list_all batch_object bs \<Longrightarrow> find P bs = Some b \<Longrightarrow> batch_object b"
  by (auto simp: find_Some_iff list_all_iff)

lemma batch_object_truthy: "batch_object b \<Longrightarrow> py_truthy b"
  by (auto simp: batch_object_def split: json.splits)

lemma attempt_simple_absent:
  assumes "batch_list batches" "\<not> holds_target batches t" "printable t"
  shows "attempt_simple (Inr batches) t i = ([Sleep 10, Get, Print (NotFound t)], Normal)"
proof -
  from assms obtain bs where bs: "batches = JArr bs" "list_all batch_object bs"
    by (auto simp: batch_list_def split: json.splits)
  with assms have "find (id_is t) bs = None"
    by (auto simp: holds_target_def find_None_iff list_ex_iff)
  with bs assms(3) show ?thesis
    by (simp add: attempt_simple_def next_batch_def first_match_find emit_def say_def)
qed

lemma attempt_requests_absent:
  assumes "batch_list batches" "\<not> holds_target batches t"
  shows "attempt_requests (ok_response batches) t i = ([Sleep 10, Get], Normal)"
proof -
  from assms obtain bs where bs: "batches = JArr bs" "list_all batch_object bs"
    by (auto simp: batch_list_def split: json.splits)
  with assms have "find (id_is t) bs = None"
    by (auto simp: holds_target_def find_None_iff list_ex_iff)
  with bs show ?thesis
    by (simp add: attempt_requests_def ok_response_def next_batch_def first_match_find emit_def)
qed

text \<open>A pass that locates the target in a well-formed list: the snapshot is printed,
  and the pass leaves the loop exactly when the status is the string \<open>completed\<close>.\<close>

lemma print_snapshot_status:
  assumes "map_of kvs (ustr ''status'') = Some st" "printable_fields (JObj kvs)"
  shows "\<exists>ls. \<forall>k. print_snapshot i (JObj kvs) k = (map Print ls @ fst k, snd k)"
  by (intro exI allI) (rule print_snapshot_obj [OF assms])

lemma located:
  assumes "batch_list batches" "target_status batches t = Some st" "target_printable batches t"
  shows "\<exists>kvs. next_batch batches t = Inr (JObj kvs) \<and> kvs \<noteq> [] \<and>
               map_of kvs (ustr ''status'') = Some st \<and> printable_fields (JObj kvs)"
proof -
  from assms obtain bs where bs: "batches = JArr bs" "list_all batch_object bs"
    by (auto simp: batch_list_def split: json.splits)
  with assms obtain b where b: "find (id_is t) bs = Some b" "subscript b (ustr ''status'') = Inr st"
    by (auto simp: target_status_def split: option.splits sum.splits)
  with bs have "batch_object b" by (auto dest: find_batch_object)
  with b obtain kvs where kvs: "b = JObj kvs" "map_of kvs (ustr ''status'') = Some st"
    by (auto simp: batch_object_def split: json.splits option.splits)
  then have "kvs \<noteq> []" by auto
  moreover from assms(3) bs b kvs have "printable_fields (JObj kvs)"
    by (simp add: target_printable_def)
  ultimately show ?thesis using kvs bs b by (simp add: next_batch_def first_match_find)
qed

lemma attempt_simple_located:
  assumes "batch_list batches" "target_status batches t = Some st" "target_printable batches t"
  shows "\<exists>ls. attempt_simple (Inr batches) t i =
           (if st = JStr (ustr ''completed'')
            then (Sleep 10 # Get # map Print (ls @ [CompletedSuccessfully, AllPhasesCompleted]), Break)
            else (Sleep 10 # Get # map Print ls, Normal))"
proof -
  from located [OF assms] obtain kvs where kvs:
    "next_batch batches t = Inr (JObj kvs)" "kvs \<noteq> []" "map_of kvs (ustr ''status'') = Some st"
    "printable_fields (JObj kvs)"
    by blast
  from print_snapshot_status [OF kvs(3,4)] obtain ls where
    ls: "\<And>k. print_snapshot i (JObj kvs) k = (map Print ls @ fst k, snd k)"
    by blast
  have "attempt_simple (Inr batches) t i =
           (if st = JStr (ustr ''completed'')
            then (Sleep 10 # Get # map Print (ls @ [CompletedSuccessfully, AllPhasesCompleted]), Break)
            else (Sleep 10 # Get # map Print ls, Normal))"
    using kvs by (simp add: attempt_simple_def ls check_completed_def py_eq_JStr emit_def)
  then show ?thesis ..
qed

lemma attempt_requests_located:
  assumes "batch_list batches" "target_status batches t = Some st" "target_printable batches t"
  shows "\<exists>ls. attempt_requests (ok_response batches) t i =
           (if st = JStr (ustr ''completed'')
            then (Sleep 10 # Get # map Print (ls @ [Completed]), Break)
            else (Sleep 10 # Get # map Print ls, Normal))"
proof -
  from located [OF assms] obtain kvs where kvs:
    "next_batch batches t = Inr (JObj kvs)" "kvs \<noteq> []" "map_of kvs (ustr ''status'') = Some st"
    "printable_fields (JObj kvs)"
    by blast
  from print_snapshot_status [OF kvs(3,4)] obtain ls where
    ls: "\<And>k. print_snapshot i (JObj kvs) k = (map Print ls @ fst k, snd k)"
    by blast
  have "attempt_requests (ok_response batches) t i =
           (if st = JStr (ustr ''completed'')
            then (Sleep 10 # Get # map Print (ls @ [Completed]), Break)
            else (Sleep 10 # Get # map Print ls, Normal))"
    using kvs
    by (simp add: attempt_requests_def ok_response_def ls check_completed_def py_eq_JStr emit_def)
  then show ?thesis ..
qed

lemma sleeps_simps:
  "sleeps [] = []"
  "sleeps (Sleep n # tr) = n # sleeps tr"
  "sleeps (Get # tr) = sleeps tr"
  "sleeps (Post # tr) = sleeps tr"
  "sleeps (Print l # tr) = sleeps tr"
  "sleeps (tr @ tr') = sleeps tr @ sleeps tr'"
  by (simp_all add: sleeps_def)

lemma sleeps_prints: "sleeps (map Print ls) = []"
  by (induction ls) (simp_all add: sleeps_simps)

lemma count_get_prints: "count_list (map Print ls) Get = 0"
  by (induction ls) simp_all

lemma sleeps_passes:
  "\<forall>j\<in>set js. sleeps (f j) = [10] \<Longrightarrow> sleeps (concat (map f js)) = replicate (length js) 10"
  by (induction js) (simp_all add: sleeps_simps)

lemma gets_passes:
  "\<forall>j\<in>set js. count_list (f j) Get = 1 \<Longrightarrow> count_list (concat (map f js)) Get = length js"
  by (induction js) simp_all

lemma range_split: "k < n \<Longrightarrow> [0..<n] = [0..<k] @ k # [Suc k..<n]"
proof -
  assume "k < n"
  then have "[0..<n] = [0..<k] @ [k..<n]"
    using upt_add_eq_append [of 0 k "n - k"] by simp
  with \<open>k < n\<close> show ?thesis by (simp add: upt_conv_Cons)
qed

lemma absent_status: 
  assumes "batch_list batches" "target_status batches t = None"
  shows "\<not> holds_target batches t"
proof -
  from assms obtain bs where bs: "batches = JArr bs" "list_all batch_object bs"
    by (auto simp: batch_list_def split: json.splits)
  have "find (id_is t) bs = None"
  proof (cases "find (id_is t) bs")
    case (Some b)
    with bs have "batch_object b" by (auto dest: find_batch_object)
    with Some bs assms show ?thesis
      by (auto simp: target_status_def batch_object_def split: json.splits option.splits)
  qed simp
  with bs show ?thesis by (simp add: holds_target_def find_None_iff list_ex_iff)
qed

lemma attempt_simple_goes_on:
  assumes "batch_list batches" "target_status batches t \<noteq> Some (JStr (ustr ''completed''))"
    and "target_printable batches t" "printable t"
  shows "\<exists>ls. attempt_simple (Inr batches) t i = (Sleep 10 # Get # map Print ls, Normal)"
proof (cases "target_status batches t")
  case None
  with assms have "attempt_simple (Inr batches) t i = (Sleep 10 # Get # map Print [NotFound t], Normal)"
    by (simp add: attempt_simple_absent absent_status)
  then show ?thesis ..
next
  case (Some st)
  with assms attempt_simple_located [of batches t st i] show ?thesis by auto
qed

lemma attempt_requests_goes_on:
  assumes "batch_list batches" "target_status batches t \<noteq> Some (JStr (ustr ''completed''))"
    and "target_printable batches t"
  shows "\<exists>ls. attempt_requests (ok_response batches) t i = (Sleep 10 # Get # map Print ls, Normal)"
proof (cases "target_status batches t")
  case None
  with assms have "attempt_requests (ok_response batches) t i = (Sleep 10 # Get # map Print [], Normal)"
    by (simp add: attempt_requests_absent absent_status)
  then show ?thesis ..
next
  case (Some st)
  with assms attempt_requests_located [of batches t st i] show ?thesis by auto
qed

text \<open>The loop run on a sequence of well-formed answers of which the first \<open>k\<close> do not
  show the target as completed: the first \<open>k\<close> passes each sleep once, request once and go on.\<close>

lemma quiet_passes:
  assumes "\<forall>j\<in>set js. \<exists>ls. body j = (Sleep 10 # Get # map Print ls, Normal)"
  shows "(\<forall>j\<in>set js. snd (body j) = Normal) \<and>
         sleeps (concat (map (\<lambda>j. fst (body j)) js)) = replicate (length js) 10 \<and>
         count_list (concat (map (\<lambda>j. fst (body j)) js)) Get = length js"
proof (intro conjI)
  show "\<forall>j\<in>set js. snd (body j) = Normal" using assms by fastforce
  show "sleeps (concat (map (\<lambda>j. fst (body j)) js)) = replicate (length js) 10"
    using assms by (intro sleeps_passes) (fastforce simp: sleeps_simps sleeps_prints)
  show "count_list (concat (map (\<lambda>j. fst (body j)) js)) Get = length js"
    using assms by (intro gets_passes) (fastforce simp: count_get_prints)
qed

lemma loop_stops:
  assumes "k < 30"
    and quiet: "\<forall>j<k. \<exists>ls. body j = (Sleep 10 # Get # map Print ls, Normal)"
    and last: "body k = (Sleep 10 # Get # map Print ls, Break)"
  shows "\<exists>pre. for_in [0..<30] body = (pre @ Sleep 10 # Get # map Print ls, Normal) \<and>
           sleeps pre = replicate k 10 \<and> count_list pre Get = k"
proof -
  have q: "\<forall>j\<in>set [0..<k]. \<exists>ls. body j = (Sleep 10 # Get # map Print ls, Normal)"
    using quiet by simp
  note p = quiet_passes [OF q]
  have "for_in [0..<30] body =
          (concat (map (\<lambda>j. fst (body j)) [0..<k]) @ fst (body k), Normal)"
    using p last by (simp add: range_split [OF \<open>k < 30\<close>] for_in_break)
  with p last show ?thesis by simp
qed

lemma loop_exhausts:
  assumes quiet: "\<forall>j<30. \<exists>ls. body j = (Sleep 10 # Get # map Print ls, Normal)"
  shows "snd (for_in [0..<30] body) = Normal \<and>
         sleeps (fst (for_in [0..<30] body)) = replicate 30 10 \<and>
         count_list (fst (for_in [0..<30] body)) Get = 30"
proof -
  have q: "\<forall>j\<in>set [0..<30]. \<exists>ls. body j = (Sleep 10 # Get # map Print ls, Normal)"
    using quiet by simp
  note p = quiet_passes [OF q]
  then have "for_in [0..<30] body = (concat (map (\<lambda>j. fst (body j)) [0..<30]), Normal)"
    by (simp add: for_in_normal)
  with p show ?thesis by simp
qed

lemma stops_simple:
  assumes "k < 30"
    and "\<forall>j\<le>k. batch_list (bl j)"
    and "\<forall>j<k. target_status (bl j) t \<noteq> Some (JStr (ustr ''completed''))"
    and "target_status (bl k) t = Some (JStr (ustr ''completed''))"
    and "\<forall>j\<le>k. target_printable (bl j) t"
    and "printable t"
  shows "\<exists>pre ls. poll_simple (Inr \<circ> bl) t =
            (pre @ Sleep 10 # Get # map Print (ls @ [CompletedSuccessfully, AllPhasesCompleted]),
             Normal) \<and>
           sleeps pre = replicate k 10 \<and> count_list pre Get = k"
proof -
  let ?body = "\<lambda>i. attempt_simple ((Inr \<circ> bl) i) t i"
  from assms attempt_simple_located [of "bl k" t "JStr (ustr ''completed'')" k]
  obtain ls where last: "?body k =
      (Sleep 10 # Get # map Print (ls @ [CompletedSuccessfully, AllPhasesCompleted]), Break)"
    by auto
  have quiet: "\<forall>j<k. \<exists>ls. ?body j = (Sleep 10 # Get # map Print ls, Normal)"
    using assms by (auto intro!: attempt_simple_goes_on)
  from loop_stops [of k ?body, OF \<open>k < 30\<close> quiet last]
  show ?thesis unfolding poll_simple_def by blast
qed

lemma stops_requests:
  assumes "k < 30"
    and "\<forall>j\<le>k. batch_list (bl j)"
    and "\<forall>j<k. target_status (bl j) t \<noteq> Some (JStr (ustr ''completed''))"
    and "target_status (bl k) t = Some (JStr (ustr ''completed''))"
    and "\<forall>j\<le>k. target_printable (bl j) t"
  shows "\<exists>pre ls. poll_requests (ok_response \<circ> bl) t =
            (pre @ Sleep 10 # Get # map Print (ls @ [Completed]), Normal) \<and>
           sleeps pre = replicate k 10 \<and> count_list pre Get = k"
proof -
  let ?body = "\<lambda>i. attempt_requests ((ok_response \<circ> bl) i) t i"
  from assms attempt_requests_located [of "bl k" t "JStr (ustr ''completed'')" k]
  obtain ls where last: "?body k = (Sleep 10 # Get # map Print (ls @ [Completed]), Break)"
    by auto
  have quiet: "\<forall>j<k. \<exists>ls. ?body j = (Sleep 10 # Get # map Print ls, Normal)"
    using assms by (auto intro!: attempt_requests_goes_on)
  from loop_stops [of k ?body, OF \<open>k < 30\<close> quiet last]
  show ?thesis unfolding poll_requests_def by blast
qed

lemma goes_on_simple:
  assumes "\<forall>j<30. batch_list (bl j) \<and> target_printable (bl j) t \<and>
             target_status (bl j) t \<noteq> Some (JStr (ustr ''completed''))"
    and "printable t"
  shows "sleeps (fst (poll_simple (Inr \<circ> bl) t)) = replicate 30 10 \<and>
         count_list (fst (poll_simple (Inr \<circ> bl) t)) Get = 30"
  using assms loop_exhausts [of "\<lambda>i. attempt_simple ((Inr \<circ> bl) i) t i"]
  by (simp add: poll_simple_def attempt_simple_goes_on)

lemma goes_on_requests:
  assumes "\<forall>j<30. batch_list (bl j) \<and> target_printable (bl j) t \<and>
             target_status (bl j) t \<noteq> Some (JStr (ustr ''completed''))"
  shows "sleeps (fst (poll_requests (ok_response \<circ> bl) t)) = replicate 30 10 \<and>
         count_list (fst (poll_requests (ok_response \<circ> bl) t)) Get = 30"
  using assms loop_exhausts [of "\<lambda>i. attempt_requests ((ok_response \<circ> bl) i) t i"]
  by (simp add: poll_requests_def attempt_requests_goes_on)

lemma print_snapshot_other:
  "(\<And>kvs. batch \<noteq> JObj kvs) \<Longrightarrow>
   print_snapshot i batch k = ([Print (TimeLine (i * 10))], Raise TypeError)"
proof (cases batch)
  case (JObj kvs)
  moreover assume "\<And>kvs. batch \<noteq> JObj kvs"
  ultimately show ?thesis by blast
qed (simp_all add: print_snapshot_def say_def emit_def fmt1_def)

text \<open>A line that the snapshot does not print, when it is in the run, comes from the rest
  of the block, which has then been run.\<close>

lemma say_passes:
  assumes "ev \<in> set (fst (say x k))" "\<And>l. x = Inr l \<Longrightarrow> ev \<noteq> Print l"
  shows "ev \<in> set (fst k) \<and> snd (say x k) = snd k"
  using assms by (auto simp: say_def emit_def split: sum.splits if_splits)

lemma fmt_lines:
  "fmt1 f x = Inr l \<Longrightarrow> \<exists>v. l = f v"
  "fmt2 g x y = Inr l \<Longrightarrow> \<exists>v w. l = g v w"
  by (auto simp: fmt1_def fmt2_def split: sum.splits)

lemma print_snapshot_passes:
  assumes "ev \<in> set (fst (print_snapshot i batch k))"
    and "ev = Print CompletedSuccessfully \<or> ev = Print Completed"
  shows "ev \<in> set (fst k) \<and> snd (print_snapshot i batch k) = snd k"
proof -
  note other = assms(2)
  let ?k7 = "say (fmt1 AkkioLine
            (dict_get batch (ustr ''akkioPredictionStatus'') (JStr (ustr ''pending'')))) k"
  let ?k6 = "say (fmt1 MastercardLine
            (dict_get batch (ustr ''mastercardEnrichmentStatus'') (JStr (ustr ''pending'')))) ?k7"
  let ?k5 = "say (fmt1 GoogleAddressLine
            (dict_get batch (ustr ''googleAddressStatus'') (JStr (ustr ''pending'')))) ?k6"
  let ?k4 = "say (fmt1 FinexioLine
            (dict_get batch (ustr ''finexioMatchingStatus'') (JStr (ustr ''pending'')))) ?k5"
  let ?k3 = "say (fmt2 ClassificationLine
            (dict_get batch (ustr ''processedRecords'') (JInt 0))
            (dict_get batch (ustr ''totalRecords'') (JInt 0))) ?k4"
  let ?k2 = "say (fmt1 CurrentStepLine
            (dict_get batch (ustr ''currentStep'') (JStr (ustr ''N/A'')))) ?k3"
  let ?k1 = "say (fmt1 StatusLine (subscript batch (ustr ''status''))) ?k2"
  have p: "print_snapshot i batch k = say (Inr (TimeLine (i * 10))) ?k1"
    by (simp add: print_snapshot_def)
  from assms(1) have 0: "ev \<in> set (fst ?k1) \<and> snd (print_snapshot i batch k) = snd ?k1"
    unfolding p using other by (intro say_passes) auto
  then have 1: "ev \<in> set (fst ?k2) \<and> snd ?k1 = snd ?k2"
    using other by (intro say_passes) (auto dest!: fmt_lines)
  then have 2: "ev \<in> set (fst ?k3) \<and> snd ?k2 = snd ?k3"
    using other by (intro say_passes) (auto dest!: fmt_lines)
  then have 3: "ev \<in> set (fst ?k4) \<and> snd ?k3 = snd ?k4"
    using other by (intro say_passes) (auto dest!: fmt_lines)
  then have 4: "ev \<in> set (fst ?k5) \<and> snd ?k4 = snd ?k5"
    using other by (intro say_passes) (auto dest!: fmt_lines)
  then have 5: "ev \<in> set (fst ?k6) \<and> snd ?k5 = snd ?k6"
    using other by (intro say_passes) (auto dest!: fmt_lines)
  then have 6: "ev \<in> set (fst ?k7) \<and> snd ?k6 = snd ?k7"
    using other by (intro say_passes) (auto dest!: fmt_lines)
  then have 7: "ev \<in> set (fst k) \<and> snd ?k7 = snd k"
    using other by (intro say_passes) (auto dest!: fmt_lines)
  from 0 1 2 3 4 5 6 7 show ?thesis by simp
qed

lemma print_snapshot_lines:
  "Print CompletedSuccessfully \<in> set (fst (print_snapshot i batch k)) \<Longrightarrow>
     Print CompletedSuccessfully \<in> set (fst k) \<and> snd (print_snapshot i batch k) = snd k"
  "Print Completed \<in> set (fst (print_snapshot i batch k)) \<Longrightarrow>
     Print Completed \<in> set (fst k) \<and> snd (print_snapshot i batch k) = snd k"
  by (simp_all add: print_snapshot_passes)

lemma check_completed_break:
  "Print l \<in> set (fst (check_completed batch ls)) \<Longrightarrow> snd (check_completed batch ls) = Break"
  by (auto simp: check_completed_def split: sum.splits if_splits)

lemma attempt_simple_message:
  "Print CompletedSuccessfully \<in> set (fst (attempt_simple r t i)) \<Longrightarrow>
   snd (attempt_simple r t i) = Break"
  by (auto simp: attempt_simple_def emit_def say_def check_completed_break
      dest!: print_snapshot_lines split: sum.splits if_splits)

lemma attempt_requests_message:
  "Print Completed \<in> set (fst (attempt_requests r t i)) \<Longrightarrow>
   snd (attempt_requests r t i) = Break"
  by (auto simp: attempt_requests_def emit_def say_def check_completed_break
      dest!: print_snapshot_lines split: sum.splits if_splits)

lemma for_in_message:
  "(\<And>i. ev \<in> set (fst (body i)) \<Longrightarrow> snd (body i) = Break) \<Longrightarrow>
   ev \<in> set (fst (for_in js body)) \<Longrightarrow> snd (for_in js body) = Normal"
proof (induction js)
  case Nil
  then show ?case by simp
next
  case (Cons a js)
  obtain tr c where b: "body a = (tr, c)" by (cases "body a")
  show ?case
  proof (cases c)
    case Normal
    with b Cons.prems(1) [of a] have "ev \<notin> set tr" by auto
    with b Normal Cons.prems(2) have "ev \<in> set (fst (for_in js body))" by simp
    with Cons.IH Cons.prems(1) b Normal show ?thesis by simp
  next
    case Break
    with b show ?thesis by simp
  next
    case (Raise e)
    with b Cons.prems(2) have "ev \<in> set tr" by simp
    with b Raise Cons.prems(1) [of a] show ?thesis by simp
  qed
qed

lemma for_in_same:
  "\<forall>i\<in>set js. body i = (tr, Normal) \<Longrightarrow>
   for_in js body = (concat (replicate (length js) tr), Normal)"
  by (induction js) simp_all

lemma first_pass_raises:
  assumes "snd (body 0) = Raise e"
  shows "for_in [0..<30] body = (fst (body 0), Raise e)"
proof -
  have "for_in ([] @ 0 # [Suc 0..<30]) body = (concat (map (\<lambda>i. fst (body i)) []) @ fst (body 0), Raise e)"
    using assms by (intro for_in_raise) simp_all
  moreover have "[0..<30] = [] @ 0 # [Suc 0..<30]"
    using range_split [of 0 30] by simp
  ultimately show ?thesis by simp
qed

text \<open>The two scripts on an upload answered with a JSON object: the identifier is printed
  and then polled for; when it cannot be printed the script ends at that print, without a
  request to the status endpoint.\<close>

lemma simple_script:
  "upload_and_poll_simple (Inr (JObj kvs)) env =
     (if printable (case map_of kvs (ustr ''id'') of None \<Rightarrow> JNull | Some v \<Rightarrow> v) then
        try_except
          (emit Post
          (emit (Print (UploadOk (case map_of kvs (ustr ''id'') of None \<Rightarrow> JNull | Some v \<Rightarrow> v)))
          (emit (Print (InitialResponse (JObj kvs)))
          (emit (Print Monitoring)
          (poll_simple env (case map_of kvs (ustr ''id'') of None \<Rightarrow> JNull | Some v \<Rightarrow> v))))))
      else ([Post, Print (ErrorLine UnicodeEncodeError)], Normal))"
proof (cases "printable (case map_of kvs (ustr ''id'') of None \<Rightarrow> JNull | Some v \<Rightarrow> v)")
  case True
  then show ?thesis by (simp add: upload_and_poll_simple_def say_def)
next
  case False
  then show ?thesis by (simp add: upload_and_poll_simple_def say_def emit_def try_except_def)
qed

lemma requests_script:
  "upload_and_poll_requests
       (Inr \<lparr>status_code = 200, json_result = Inr (JObj kvs), text_of = tx\<rparr>) env =
     (if printable (case map_of kvs (ustr ''batchId'') of None \<Rightarrow> JNull | Some v \<Rightarrow> v) then
        emit (Print Uploading)
          (emit Post
          (emit (Print (UploadOk (case map_of kvs (ustr ''batchId'') of None \<Rightarrow> JNull | Some v \<Rightarrow> v)))
          (emit (Print (Response (JObj kvs)))
          (emit (Print Monitoring)
          (poll_requests env (case map_of kvs (ustr ''batchId'') of None \<Rightarrow> JNull | Some v \<Rightarrow> v))))))
      else ([Print Uploading, Post], Raise UnicodeEncodeError))"
proof (cases "printable (case map_of kvs (ustr ''batchId'') of None \<Rightarrow> JNull | Some v \<Rightarrow> v)")
  case True
  then show ?thesis by (simp add: upload_and_poll_requests_def say_def)
next
  case False
  then show ?thesis by (simp add: upload_and_poll_requests_def say_def emit_def)
qed

lemma unprintable_never_polls:
  assumes "dict_get (JObj kvs) (ustr ''id'') JNull = Inr t" "\<not> printable t"
  shows "upload_and_poll_simple (Inr (JObj kvs)) env =
           ([Post, Print (ErrorLine UnicodeEncodeError)], Normal)"
  using assms by (simp add: simple_script)

lemma attempt_simple_unprintable:
  assumes "batch_list batches" "\<not> holds_target batches t" "\<not> printable t"
  shows "attempt_simple (Inr batches) t i = ([Sleep 10, Get], Raise UnicodeEncodeError)"
proof -
  from assms obtain bs where bs: "batches = JArr bs" "list_all batch_object bs"
    by (auto simp: batch_list_def split: json.splits)
  with assms have "find (id_is t) bs = None"
    by (auto simp: holds_target_def find_None_iff list_ex_iff)
  with bs assms(3) show ?thesis
    by (simp add: attempt_simple_def next_batch_def first_match_find emit_def say_def)
qed

text \<open>
  C5. When none of the thirty batch lists holds an entry whose \<open>id\<close> equals the target,
  the loop of either script makes exactly thirty passes, each a ten-second sleep followed
  by one request (and, in \<open>test-upload-simple.py\<close>, the warning), and then ends normally,
  without raising. A loop that printed its completion message ends in the same way, so
  nothing but the printed lines tells the two apart. The warning prints the target; a target
  that \<open>print\<close> cannot write would end the first pass there, but the script never polls for
  one: line 63 prints the identifier before the loop, and the script ends at that print.
\<close>

theorem exhaustion_thirty_passes:
  assumes "\<forall>j<30. batch_list (bl j) \<and> \<not> holds_target (bl j) t"
  shows "poll_simple (Inr \<circ> bl) t =
           (if printable t
            then (concat (replicate 30 [Sleep 10, Get, Print (NotFound t)]), Normal)
            else ([Sleep 10, Get], Raise UnicodeEncodeError)) \<and>
         poll_requests (ok_response \<circ> bl) t = (concat (replicate 30 [Sleep 10, Get]), Normal) \<and>
         (\<forall>env. Print CompletedSuccessfully \<in> set (fst (poll_simple env t)) \<longrightarrow>
                snd (poll_simple env t) = Normal) \<and>
         (\<forall>env. Print Completed \<in> set (fst (poll_requests env t)) \<longrightarrow>
                snd (poll_requests env t) = Normal) \<and>
         (\<forall>kvs env. dict_get (JObj kvs) (ustr ''id'') JNull = Inr t \<and> \<not> printable t \<longrightarrow>
                upload_and_poll_simple (Inr (JObj kvs)) env =
                  ([Post, Print (ErrorLine UnicodeEncodeError)], Normal))"
proof (intro conjI allI impI)
  show "poll_simple (Inr \<circ> bl) t =
           (if printable t
            then (concat (replicate 30 [Sleep 10, Get, Print (NotFound t)]), Normal)
            else ([Sleep 10, Get], Raise UnicodeEncodeError))"
  proof (cases "printable t")
    case True
    then have "\<forall>j\<in>set [0..<30]. attempt_simple ((Inr \<circ> bl) j) t j =
        ([Sleep 10, Get, Print (NotFound t)], Normal)"
      using assms by (simp add: attempt_simple_absent)
    from for_in_same [OF this] True show ?thesis by (simp add: poll_simple_def)
  next
    case False
    with assms have "attempt_simple ((Inr \<circ> bl) 0) t 0 = ([Sleep 10, Get], Raise UnicodeEncodeError)"
      by (simp add: attempt_simple_unprintable)
    with False first_pass_raises [of "\<lambda>j. attempt_simple ((Inr \<circ> bl) j) t j" UnicodeEncodeError]
    show ?thesis by (simp add: poll_simple_def)
  qed
next
  have "\<forall>j\<in>set [0..<30]. attempt_requests ((ok_response \<circ> bl) j) t j = ([Sleep 10, Get], Normal)"
    using assms by (simp add: attempt_requests_absent)
  from for_in_same [OF this] show "poll_requests (ok_response \<circ> bl) t = (concat (replicate 30 [Sleep 10, Get]), Normal)"
    by (simp add: poll_requests_def)
next
  fix env
  assume "Print CompletedSuccessfully \<in> set (fst (poll_simple env t))"
  then show "snd (poll_simple env t) = Normal"
    unfolding poll_simple_def by (rule for_in_message [rotated]) (rule attempt_simple_message)
next
  fix env
  assume "Print Completed \<in> set (fst (poll_requests env t))"
  then show "snd (poll_requests env t) = Normal"
    unfolding poll_requests_def by (rule for_in_message [rotated]) (rule attempt_requests_message)
next
  fix kvs env
  assume "dict_get (JObj kvs) (ustr ''id'') JNull = Inr t \<and> \<not> printable t"
  then have "dict_get (JObj kvs) (ustr ''id'') JNull = Inr t" "\<not> printable t"
    by blast+
  then show "upload_and_poll_simple (Inr (JObj kvs)) env =
      ([Post, Print (ErrorLine UnicodeEncodeError)], Normal)"
    by (rule unprintable_never_polls)
qed

theorem exhaustion_thirty_passes_witness:
  "poll_simple (Inr \<circ> never_listed) (JStr (ustr ''b1'')) =
     (concat (replicate 30 [Sleep 10, Get, Print (NotFound (JStr (ustr ''b1'')))]), Normal) \<and>
   poll_requests (ok_response \<circ> never_listed) (JStr (ustr ''b1'')) =
     (concat (replicate 30 [Sleep 10, Get]), Normal)"
proof -
  have h: "\<forall>j<30. batch_list (never_listed j) \<and> \<not> holds_target (never_listed j) (JStr (ustr ''b1''))"
    by (simp add: never_listed_def batch_list_def batch_object_def holds_target_def id_is_def
        ustr_def)
  have p: "printable (JStr (ustr ''b1''))" by (simp add: printable_ustr)
  show ?thesis
    using exhaustion_thirty_passes [OF h] p by simp
qed

text \<open>
  C4 (as amended). Let every answer up to answer \<open>k\<close> be a well-formed batch list in which
  the values that the snapshot of the target prints can all be written, let \<open>k\<close> be among
  the thirty passes, let the target's status be the string \<open>completed\<close> in answer \<open>k\<close> and
  something else (or the target absent) in every earlier answer. Then the loop of either
  script sleeps and requests \<open>k\<close> times before pass \<open>k\<close>, sleeps and requests once more in
  pass \<open>k\<close>, prints the snapshot and the completion message, and ends there: no sleep and
  no request follow. And when none of the thirty such answers shows the target as
  \<open>completed\<close>, whatever the statuses are, the loop runs all thirty passes. In
  \<open>test-upload-simple.py\<close> the warning of a pass without the target prints the target,
  which is taken to be a value that can be written: the script polls for no other, as it
  ends at line 63 when the identifier cannot be printed.
\<close>

theorem stops_at_first_completed:
  "(k < 30 \<and> (\<forall>j\<le>k. batch_list (bl j) \<and> target_printable (bl j) t) \<and>
    (\<forall>j<k. target_status (bl j) t \<noteq> Some (JStr (ustr ''completed''))) \<and>
    target_status (bl k) t = Some (JStr (ustr ''completed'')) \<longrightarrow>
      (printable t \<longrightarrow>
        (\<exists>pre ls. poll_simple (Inr \<circ> bl) t =
          (pre @ Sleep 10 # Get # map Print (ls @ [CompletedSuccessfully, AllPhasesCompleted]),
           Normal) \<and>
         sleeps pre = replicate k 10 \<and> count_list pre Get = k)) \<and>
      (\<exists>pre ls. poll_requests (ok_response \<circ> bl) t =
          (pre @ Sleep 10 # Get # map Print (ls @ [Completed]), Normal) \<and>
         sleeps pre = replicate k 10 \<and> count_list pre Get = k)) \<and>
   ((\<forall>j<30. batch_list (bl j) \<and> target_printable (bl j) t \<and>
       target_status (bl j) t \<noteq> Some (JStr (ustr ''completed''))) \<longrightarrow>
      (printable t \<longrightarrow>
        sleeps (fst (poll_simple (Inr \<circ> bl) t)) = replicate 30 10 \<and>
        count_list (fst (poll_simple (Inr \<circ> bl) t)) Get = 30) \<and>
      sleeps (fst (poll_requests (ok_response \<circ> bl) t)) = replicate 30 10 \<and>
      count_list (fst (poll_requests (ok_response \<circ> bl) t)) Get = 30) \<and>
   (\<forall>kvs env. dict_get (JObj kvs) (ustr ''id'') JNull = Inr t \<and> \<not> printable t \<longrightarrow>
      upload_and_poll_simple (Inr (JObj kvs)) env =
        ([Post, Print (ErrorLine UnicodeEncodeError)], Normal))"
proof (intro conjI impI allI)
  assume a: "k < 30 \<and> (\<forall>j\<le>k. batch_list (bl j) \<and> target_printable (bl j) t) \<and>
    (\<forall>j<k. target_status (bl j) t \<noteq> Some (JStr (ustr ''completed''))) \<and>
    target_status (bl k) t = Some (JStr (ustr ''completed''))"
  then have h: "k < 30" "\<forall>j\<le>k. batch_list (bl j)"
    "\<forall>j<k. target_status (bl j) t \<noteq> Some (JStr (ustr ''completed''))"
    "target_status (bl k) t = Some (JStr (ustr ''completed''))"
    "\<forall>j\<le>k. target_printable (bl j) t"
    by blast+
  show "\<exists>pre ls. poll_requests (ok_response \<circ> bl) t =
          (pre @ Sleep 10 # Get # map Print (ls @ [Completed]), Normal) \<and>
         sleeps pre = replicate k 10 \<and> count_list pre Get = k"
    by (rule stops_requests [OF h])
  assume "printable t"
  with h show "\<exists>pre ls. poll_simple (Inr \<circ> bl) t =
          (pre @ Sleep 10 # Get # map Print (ls @ [CompletedSuccessfully, AllPhasesCompleted]),
           Normal) \<and>
         sleeps pre = replicate k 10 \<and> count_list pre Get = k"
    by (rule stops_simple)
next
  assume q: "\<forall>j<30. batch_list (bl j) \<and> target_printable (bl j) t \<and>
       target_status (bl j) t \<noteq> Some (JStr (ustr ''completed''))"
  from goes_on_requests [OF q]
  show "sleeps (fst (poll_requests (ok_response \<circ> bl) t)) = replicate 30 10"
    and "count_list (fst (poll_requests (ok_response \<circ> bl) t)) Get = 30"
    by blast+
  assume "printable t"
  with goes_on_simple [OF q]
  show "sleeps (fst (poll_simple (Inr \<circ> bl) t)) = replicate 30 10"
    and "count_list (fst (poll_simple (Inr \<circ> bl) t)) Get = 30"
    by blast+
next
  fix kvs env
  assume "dict_get (JObj kvs) (ustr ''id'') JNull = Inr t \<and> \<not> printable t"
  then have "dict_get (JObj kvs) (ustr ''id'') JNull = Inr t" "\<not> printable t"
    by blast+
  then show "upload_and_poll_simple (Inr (JObj kvs)) env =
      ([Post, Print (ErrorLine UnicodeEncodeError)], Normal)"
    by (rule unprintable_never_polls)
qed

lemma sample_lists:
  "batch_list (completes_at k j)"
  "target_status (completes_at k j) (JStr (ustr ''b1'')) =
     Some (JStr (if j = k then ustr ''completed'' else ustr ''processing''))"
  "target_printable (completes_at k j) (JStr (ustr ''b1''))"
  "printable (JStr (ustr ''b1''))"
  by (simp_all add: completes_at_def sample_batch_def batch_list_def batch_object_def
      target_status_def target_printable_def printable_fields_def id_is_def ustr_eq_iff
      printable_ustr)

theorem stops_at_first_completed_witness:
  "(\<exists>pre ls. poll_simple (Inr \<circ> completes_at 2) (JStr (ustr ''b1'')) =
          (pre @ Sleep 10 # Get # map Print (ls @ [CompletedSuccessfully, AllPhasesCompleted]),
           Normal) \<and>
         sleeps pre = replicate 2 10 \<and> count_list pre Get = 2) \<and>
   (\<exists>pre ls. poll_requests (ok_response \<circ> completes_at 2) (JStr (ustr ''b1'')) =
          (pre @ Sleep 10 # Get # map Print (ls @ [Completed]), Normal) \<and>
         sleeps pre = replicate 2 10 \<and> count_list pre Get = 2)"
proof -
  have "(2::nat) < 30 \<and>
    (\<forall>j\<le>2. batch_list (completes_at 2 j) \<and> target_printable (completes_at 2 j) (JStr (ustr ''b1''))) \<and>
    (\<forall>j<2. target_status (completes_at 2 j) (JStr (ustr ''b1'')) \<noteq> Some (JStr (ustr ''completed''))) \<and>
    target_status (completes_at 2 2) (JStr (ustr ''b1'')) = Some (JStr (ustr ''completed''))"
    by (simp add: sample_lists ustr_eq_iff)
  with stops_at_first_completed [of 2 "completes_at 2" "JStr (ustr ''b1'')"] sample_lists(4)
  show ?thesis by blast
qed

lemma for_in_origin:
  "ev \<in> set (fst (for_in js body)) \<Longrightarrow> \<exists>i\<in>set js. ev \<in> set (fst (body i))"
proof (induction js)
  case Nil
  then show ?case by simp
next
  case (Cons a js)
  obtain tr c where b: "body a = (tr, c)" by (cases "body a")
  with Cons show ?case by (cases c) auto
qed

lemma no_message_simple:
  assumes "\<forall>j<30. batch_list (bl j) \<and> target_printable (bl j) t \<and>
             target_status (bl j) t \<noteq> Some (JStr (ustr ''completed''))"
    and "printable t"
  shows "Print CompletedSuccessfully \<notin> set (fst (poll_simple (Inr \<circ> bl) t))"
proof
  assume "Print CompletedSuccessfully \<in> set (fst (poll_simple (Inr \<circ> bl) t))"
  then obtain i where i: "i < 30"
      "Print CompletedSuccessfully \<in> set (fst (attempt_simple (Inr (bl i)) t i))"
    unfolding poll_simple_def by (auto dest!: for_in_origin)
  then have "snd (attempt_simple (Inr (bl i)) t i) = Break"
    by (simp add: attempt_simple_message)
  moreover from assms i obtain ls where
    "attempt_simple (Inr (bl i)) t i = (Sleep 10 # Get # map Print ls, Normal)"
    using attempt_simple_goes_on [of "bl i" t i] by auto
  ultimately show False by simp
qed

lemma no_message_requests:
  assumes "\<forall>j<30. batch_list (bl j) \<and> target_printable (bl j) t \<and>
             target_status (bl j) t \<noteq> Some (JStr (ustr ''completed''))"
  shows "Print Completed \<notin> set (fst (poll_requests (ok_response \<circ> bl) t))"
proof
  assume "Print Completed \<in> set (fst (poll_requests (ok_response \<circ> bl) t))"
  then obtain i where i: "i < 30"
      "Print Completed \<in> set (fst (attempt_requests (ok_response (bl i)) t i))"
    unfolding poll_requests_def by (auto dest!: for_in_origin)
  then have "snd (attempt_requests (ok_response (bl i)) t i) = Break"
    by (simp add: attempt_requests_message)
  moreover from assms i obtain ls where
    "attempt_requests (ok_response (bl i)) t i = (Sleep 10 # Get # map Print ls, Normal)"
    using attempt_requests_goes_on [of "bl i" t i] by auto
  ultimately show False by simp
qed

lemma surrogate_pass:
  "attempt_simple (Inr (surrogate_first 0)) (JStr (ustr ''b1'')) 0 =
     ([Sleep 10, Get, Print (TimeLine 0)], Raise UnicodeEncodeError)"
  "attempt_requests (ok_response (surrogate_first 0)) (JStr (ustr ''b1'')) 0 =
     ([Sleep 10, Get, Print (TimeLine 0)], Raise UnicodeEncodeError)"
  by (simp_all add: attempt_simple_def attempt_requests_def ok_response_def surrogate_first_def
      sample_batch_def next_batch_def print_snapshot_def say_def emit_def fmt1_def ustr_eq_iff
      surrogate_unprintable)

text \<open>The claim as stated fails in two ways. When the first answer that shows the target
  as completed is the thirty-first, the loop has ended before, after thirty sleeps, and
  never prints the completion message. And when an answer in front of it shows the target
  with a status that cannot be written, here the lone surrogate of \<open>"\ud800"\<close>, the
  pass of that answer raises and the answer that shows the target as completed is never
  requested.\<close>

theorem late_completion_counterexample:
  "target_status (completes_at 30 30) (JStr (ustr ''b1'')) = Some (JStr (ustr ''completed'')) \<and>
   sleeps (fst (poll_simple (Inr \<circ> completes_at 30) (JStr (ustr ''b1'')))) = replicate 30 10 \<and>
   Print CompletedSuccessfully \<notin> set (fst (poll_simple (Inr \<circ> completes_at 30) (JStr (ustr ''b1'')))) \<and>
   sleeps (fst (poll_requests (ok_response \<circ> completes_at 30) (JStr (ustr ''b1'')))) = replicate 30 10 \<and>
   Print Completed \<notin> set (fst (poll_requests (ok_response \<circ> completes_at 30) (JStr (ustr ''b1'')))) \<and>
   target_status (surrogate_first 1) (JStr (ustr ''b1'')) = Some (JStr (ustr ''completed'')) \<and>
   poll_simple (Inr \<circ> surrogate_first) (JStr (ustr ''b1'')) =
     ([Sleep 10, Get, Print (TimeLine 0)], Raise UnicodeEncodeError) \<and>
   poll_requests (ok_response \<circ> surrogate_first) (JStr (ustr ''b1'')) =
     ([Sleep 10, Get, Print (TimeLine 0)], Raise UnicodeEncodeError)"
proof -
  have q: "\<forall>j<30. batch_list (completes_at 30 j) \<and>
      target_printable (completes_at 30 j) (JStr (ustr ''b1'')) \<and>
      target_status (completes_at 30 j) (JStr (ustr ''b1'')) \<noteq> Some (JStr (ustr ''completed''))"
    by (simp add: sample_lists ustr_eq_iff)
  note p = sample_lists(4)
  have s: "target_status (surrogate_first 1) (JStr (ustr ''b1'')) = Some (JStr (ustr ''completed''))"
    by (simp add: surrogate_first_def sample_batch_def target_status_def id_is_def ustr_eq_iff)
  have r1: "poll_simple (Inr \<circ> surrogate_first) (JStr (ustr ''b1'')) =
     ([Sleep 10, Get, Print (TimeLine 0)], Raise UnicodeEncodeError)"
    using first_pass_raises
      [of "\<lambda>i. attempt_simple ((Inr \<circ> surrogate_first) i) (JStr (ustr ''b1'')) i" UnicodeEncodeError]
    by (simp add: poll_simple_def surrogate_pass)
  have r2: "poll_requests (ok_response \<circ> surrogate_first) (JStr (ustr ''b1'')) =
     ([Sleep 10, Get, Print (TimeLine 0)], Raise UnicodeEncodeError)"
    using first_pass_raises
      [of "\<lambda>i. attempt_requests ((ok_response \<circ> surrogate_first) i) (JStr (ustr ''b1'')) i"
          UnicodeEncodeError]
    by (simp add: poll_requests_def surrogate_pass)
  show ?thesis
    using goes_on_simple [OF q p] goes_on_requests [OF q] no_message_simple [OF q p]
      no_message_requests [OF q] s r1 r2
    by (simp add: sample_lists)
qed

text \<open>
  C6 (as amended). A pass whose well-formed batch list holds no entry with the target's
  \<open>id\<close> neither raises nor leaves the loop, and the loop goes on with the next pass. In
  \<open>test-upload-simple.py\<close> the pass prints the warning; in \<open>test-upload.py\<close> it prints
  nothing. The warning prints the target; a target that \<open>print\<close> cannot write would end the
  pass there, but the script never polls for one: line 63 prints the identifier before the
  loop, and the script ends at that print.
\<close>

theorem absent_target_pass:
  assumes "batch_list batches" "\<not> holds_target batches t"
  shows "attempt_simple (Inr batches) t i =
           (if printable t then ([Sleep 10, Get, Print (NotFound t)], Normal)
            else ([Sleep 10, Get], Raise UnicodeEncodeError)) \<and>
         attempt_requests (ok_response batches) t i = ([Sleep 10, Get], Normal) \<and>
         (env i = Inr batches \<and> printable t \<longrightarrow>
            for_in (i # js) (\<lambda>j. attempt_simple (env j) t j) =
              ([Sleep 10, Get, Print (NotFound t)] @ fst (for_in js (\<lambda>j. attempt_simple (env j) t j)),
               snd (for_in js (\<lambda>j. attempt_simple (env j) t j)))) \<and>
         (env' i = ok_response batches \<longrightarrow>
            for_in (i # js) (\<lambda>j. attempt_requests (env' j) t j) =
              ([Sleep 10, Get] @ fst (for_in js (\<lambda>j. attempt_requests (env' j) t j)),
               snd (for_in js (\<lambda>j. attempt_requests (env' j) t j)))) \<and>
         (\<forall>kvs env. dict_get (JObj kvs) (ustr ''id'') JNull = Inr t \<and> \<not> printable t \<longrightarrow>
            upload_and_poll_simple (Inr (JObj kvs)) env =
              ([Post, Print (ErrorLine UnicodeEncodeError)], Normal))"
proof (intro conjI impI allI)
  show "attempt_simple (Inr batches) t i =
           (if printable t then ([Sleep 10, Get, Print (NotFound t)], Normal)
            else ([Sleep 10, Get], Raise UnicodeEncodeError))"
    using assms by (simp add: attempt_simple_absent attempt_simple_unprintable)
  show "attempt_requests (ok_response batches) t i = ([Sleep 10, Get], Normal)"
    using assms by (rule attempt_requests_absent)
next
  assume "env i = Inr batches \<and> printable t"
  with assms show "for_in (i # js) (\<lambda>j. attempt_simple (env j) t j) =
              ([Sleep 10, Get, Print (NotFound t)] @ fst (for_in js (\<lambda>j. attempt_simple (env j) t j)),
               snd (for_in js (\<lambda>j. attempt_simple (env j) t j)))"
    by (simp add: attempt_simple_absent)
next
  assume "env' i = ok_response batches"
  with assms show "for_in (i # js) (\<lambda>j. attempt_requests (env' j) t j) =
              ([Sleep 10, Get] @ fst (for_in js (\<lambda>j. attempt_requests (env' j) t j)),
               snd (for_in js (\<lambda>j. attempt_requests (env' j) t j)))"
    by (simp add: attempt_requests_absent)
next
  fix kvs env
  assume "dict_get (JObj kvs) (ustr ''id'') JNull = Inr t \<and> \<not> printable t"
  then have "dict_get (JObj kvs) (ustr ''id'') JNull = Inr t" "\<not> printable t"
    by blast+
  then show "upload_and_poll_simple (Inr (JObj kvs)) env =
      ([Post, Print (ErrorLine UnicodeEncodeError)], Normal)"
    by (rule unprintable_never_polls)
qed

theorem absent_target_pass_witness:
  "attempt_simple (Inr (never_listed 0)) (JStr (ustr ''b1'')) 0 =
     ([Sleep 10, Get, Print (NotFound (JStr (ustr ''b1'')))], Normal) \<and>
   attempt_requests (ok_response (never_listed 0)) (JStr (ustr ''b1'')) 0 = ([Sleep 10, Get], Normal) \<and>
   for_in [0, 1] (\<lambda>j. attempt_simple ((Inr \<circ> never_listed) j) (JStr (ustr ''b1'')) j) =
     ([Sleep 10, Get, Print (NotFound (JStr (ustr ''b1''))),
       Sleep 10, Get, Print (NotFound (JStr (ustr ''b1'')))], Normal)"
proof -
  have h: "batch_list (never_listed j)" "\<not> holds_target (never_listed j) (JStr (ustr ''b1''))" for j
    by (simp_all add: never_listed_def batch_list_def batch_object_def holds_target_def id_is_def
        ustr_eq_iff)
  have p: "printable (JStr (ustr ''b1''))" by (simp add: printable_ustr)
  show ?thesis
    using absent_target_pass [OF h, of 0 0 "Inr \<circ> never_listed" "[1]" "ok_response \<circ> never_listed"]
      absent_target_pass [OF h, of 1 1 "Inr \<circ> never_listed" "[]" "ok_response \<circ> never_listed"] p
    by simp
qed

text \<open>The claim as stated fails for \<open>test-upload.py\<close>: its loop has no branch for a batch
  that is not found, so the pass prints nothing.\<close>

theorem silent_pass_counterexample:
  "attempt_requests (ok_response (JArr [])) (JStr (ustr ''b1'')) 0 = ([Sleep 10, Get], Normal)"
  by (simp add: attempt_requests_def ok_response_def next_batch_def emit_def)

text \<open>The search fails exactly when it reaches, before any match, an entry that cannot be
  subscripted with \<open>id\<close>.\<close>

lemma first_match_Inl:
  "first_match bs t = Inl e \<longleftrightarrow>
     (\<exists>pre b post. bs = pre @ b # post \<and>
        (\<forall>a\<in>set pre. \<exists>v. subscript a (ustr ''id'') = Inr v \<and> \<not> py_eq v t) \<and>
        subscript b (ustr ''id'') = Inl e)"
proof (induction bs)
  case Nil
  then show ?case by simp
next
  case (Cons b bs)
  show ?case
  proof (cases "subscript b (ustr ''id'')")
    case (Inl e')
    then show ?thesis by (fastforce simp: Cons_eq_append_conv)
  next
    case (Inr v)
    show ?thesis
    proof (cases "py_eq v t")
      case True
      with Inr show ?thesis by (fastforce simp: Cons_eq_append_conv)
    next
      case False
      with Inr have "first_match (b # bs) t = Inl e \<longleftrightarrow> first_match bs t = Inl e" by simp
      also have "\<dots> \<longleftrightarrow> (\<exists>pre b' post. bs = pre @ b' # post \<and>
        (\<forall>a\<in>set pre. \<exists>v. subscript a (ustr ''id'') = Inr v \<and> \<not> py_eq v t) \<and>
        subscript b' (ustr ''id'') = Inl e)" by (rule Cons.IH)
      also have "\<dots> \<longleftrightarrow> (\<exists>pre b' post. b # bs = pre @ b' # post \<and>
        (\<forall>a\<in>set pre. \<exists>v. subscript a (ustr ''id'') = Inr v \<and> \<not> py_eq v t) \<and>
        subscript b' (ustr ''id'') = Inl e)" (is "?L \<longleftrightarrow> ?R")
      proof
        assume ?L
        then obtain pre b' post where "bs = pre @ b' # post"
          "\<forall>a\<in>set pre. \<exists>v. subscript a (ustr ''id'') = Inr v \<and> \<not> py_eq v t"
          "subscript b' (ustr ''id'') = Inl e" by blast
        with Inr False have "b # bs = (b # pre) @ b' # post \<and>
          (\<forall>a\<in>set (b # pre). \<exists>v. subscript a (ustr ''id'') = Inr v \<and> \<not> py_eq v t) \<and>
          subscript b' (ustr ''id'') = Inl e" by simp
        then show ?R by blast
      next
        assume ?R
        then obtain pre b' post where p: "b # bs = pre @ b' # post"
          "\<forall>a\<in>set pre. \<exists>v. subscript a (ustr ''id'') = Inr v \<and> \<not> py_eq v t"
          "subscript b' (ustr ''id'') = Inl e" by blast
        with Inr obtain pre' where "pre = b # pre'" by (cases pre) auto
        with p show ?L by auto
      qed
      finally show ?thesis .
    qed
  qed
qed

text \<open>
  C8 (as amended). Only the seven optional fields are read with a default. \<open>status\<close> and
  \<open>id\<close> are read by subscript: the snapshot of a located batch object raises \<open>KeyError\<close>
  exactly when \<open>status\<close> is missing, and the search raises exactly when it reaches, before
  any match, an entry that is not a dictionary holding \<open>id\<close>. With \<open>status\<close> present no
  access to a field fails, whatever else is missing: the snapshot then ends as the rest of
  the block does, unless one of the values it shows cannot be written, when the \<open>print\<close>
  raises \<open>UnicodeEncodeError\<close>.
\<close>

theorem defensive_only_for_optional_fields:
  "snd (print_snapshot i (JObj kvs) k) =
     (case map_of kvs (ustr ''status'') of
        None \<Rightarrow> Raise (KeyError (ustr ''status''))
      | Some st \<Rightarrow> if printable_fields (JObj kvs) then snd k else Raise UnicodeEncodeError) \<and>
   (first_match bs t = Inl e \<longleftrightarrow>
     (\<exists>pre b post. bs = pre @ b # post \<and>
        (\<forall>a\<in>set pre. \<exists>v. subscript a (ustr ''id'') = Inr v \<and> \<not> py_eq v t) \<and>
        subscript b (ustr ''id'') = Inl e)) \<and>
   (subscript (JObj kvs) (ustr ''id'') = Inl e \<longleftrightarrow>
      map_of kvs (ustr ''id'') = None \<and> e = KeyError (ustr ''id''))"
proof (intro conjI)
  show "snd (print_snapshot i (JObj kvs) k) =
     (case map_of kvs (ustr ''status'') of
        None \<Rightarrow> Raise (KeyError (ustr ''status''))
      | Some st \<Rightarrow> if printable_fields (JObj kvs) then snd k else Raise UnicodeEncodeError)"
    by (rule print_snapshot_outcome)
  show "first_match bs t = Inl e \<longleftrightarrow>
     (\<exists>pre b post. bs = pre @ b # post \<and>
        (\<forall>a\<in>set pre. \<exists>v. subscript a (ustr ''id'') = Inr v \<and> \<not> py_eq v t) \<and>
        subscript b (ustr ''id'') = Inl e)"
    by (rule first_match_Inl)
  show "subscript (JObj kvs) (ustr ''id'') = Inl e \<longleftrightarrow>
      map_of kvs (ustr ''id'') = None \<and> e = KeyError (ustr ''id'')"
    by (auto split: option.splits)
qed

theorem defensive_only_for_optional_fields_witness:
  "snd (print_snapshot 0 (JObj [(ustr ''id'', JStr (ustr ''b1''))]) ([], Normal)) =
     Raise (KeyError (ustr ''status'')) \<and>
   first_match [sample_batch (ustr ''queued''), JObj []] (JStr (ustr ''b1'')) = Inr (sample_batch (ustr ''queued'')) \<and>
   first_match [JObj [], sample_batch (ustr ''queued'')] (JStr (ustr ''b1'')) = Inl (KeyError (ustr ''id''))"
  using defensive_only_for_optional_fields
    [of 0 "[(ustr ''id'', JStr (ustr ''b1''))]" "([], Normal)" "[JObj [], sample_batch (ustr ''queued'')]"
        "JStr (ustr ''b1'')" "KeyError (ustr ''id'')"]
  by (simp add: ustr_eq_iff sample_batch_def)

text \<open>The claim as stated fails: a located batch without \<open>status\<close>, and an entry without
  \<open>id\<close> in front of the target, both raise \<open>KeyError\<close> in the pass.\<close>

theorem undefended_access_counterexample:
  "attempt_simple (Inr (JArr [JObj [(ustr ''id'', JStr (ustr ''b1''))]])) (JStr (ustr ''b1'')) 0 =
     ([Sleep 10, Get, Print (TimeLine 0)], Raise (KeyError (ustr ''status''))) \<and>
   attempt_requests (ok_response (JArr [JObj [(ustr ''id'', JStr (ustr ''b1''))]])) (JStr (ustr ''b1'')) 0 =
     ([Sleep 10, Get, Print (TimeLine 0)], Raise (KeyError (ustr ''status''))) \<and>
   attempt_simple (Inr (JArr [JObj [(ustr ''status'', JStr (ustr ''completed''))]])) (JStr (ustr ''b1'')) 0 =
     ([Sleep 10, Get], Raise (KeyError (ustr ''id''))) \<and>
   attempt_requests (ok_response (JArr [JObj [(ustr ''status'', JStr (ustr ''completed''))]])) (JStr (ustr ''b1'')) 0 =
     ([Sleep 10, Get], Raise (KeyError (ustr ''id'')))"
  by (simp add: attempt_simple_def attempt_requests_def ok_response_def next_batch_def emit_def
      print_snapshot_no_status ustr_eq_iff)

text \<open>
  C9. From the JSON object that answers the upload, \<open>test-upload-simple.py\<close> takes the value
  of \<open>id\<close> as the polling target and \<open>test-upload.py\<close> the value of \<open>batchId\<close> (\<open>None\<close> when
  the field is absent): each script prints that value and polls for it. A value that
  \<open>print\<close> cannot write, a string with a lone surrogate, ends the script at that print,
  before any poll: \<open>test-upload-simple.py\<close> catches the exception and prints it,
  \<open>test-upload.py\<close> ends with it.
\<close>

theorem identifier_field_names:
  "upload_and_poll_simple (Inr (JObj kvs)) env =
     (if printable (case map_of kvs (ustr ''id'') of None \<Rightarrow> JNull | Some v \<Rightarrow> v) then
        try_except
          (emit Post
          (emit (Print (UploadOk (case map_of kvs (ustr ''id'') of None \<Rightarrow> JNull | Some v \<Rightarrow> v)))
          (emit (Print (InitialResponse (JObj kvs)))
          (emit (Print Monitoring)
          (poll_simple env (case map_of kvs (ustr ''id'') of None \<Rightarrow> JNull | Some v \<Rightarrow> v))))))
      else ([Post, Print (ErrorLine UnicodeEncodeError)], Normal)) \<and>
   upload_and_poll_requests
       (Inr \<lparr>status_code = 200, json_result = Inr (JObj kvs), text_of = tx\<rparr>) env' =
     (if printable (case map_of kvs (ustr ''batchId'') of None \<Rightarrow> JNull | Some v \<Rightarrow> v) then
        emit (Print Uploading)
          (emit Post
          (emit (Print (UploadOk (case map_of kvs (ustr ''batchId'') of None \<Rightarrow> JNull | Some v \<Rightarrow> v)))
          (emit (Print (Response (JObj kvs)))
          (emit (Print Monitoring)
          (poll_requests env' (case map_of kvs (ustr ''batchId'') of None \<Rightarrow> JNull | Some v \<Rightarrow> v))))))
      else ([Print Uploading, Post], Raise UnicodeEncodeError))"
  by (rule conjI [OF simple_script requests_script])

text \<open>On the answer \<open>{"id": "b1"}\<close> the first script polls for \<open>b1\<close>, the second for \<open>None\<close>;
  on the answer \<open>{"id": "\ud800"}\<close> the first script does not poll.\<close>

theorem identifier_field_names_witness:
  "upload_and_poll_simple (Inr (JObj [(ustr ''id'', JStr (ustr ''b1''))])) (Inr \<circ> never_listed) =
     try_except
       (emit Post
       (emit (Print (UploadOk (JStr (ustr ''b1''))))
       (emit (Print (InitialResponse (JObj [(ustr ''id'', JStr (ustr ''b1''))])))
       (emit (Print Monitoring)
       (poll_simple (Inr \<circ> never_listed) (JStr (ustr ''b1''))))))) \<and>
   upload_and_poll_requests
       (Inr \<lparr>status_code = 200, json_result = Inr (JObj [(ustr ''id'', JStr (ustr ''b1''))]),
             text_of = []\<rparr>) (ok_response \<circ> never_listed) =
     emit (Print Uploading)
       (emit Post
       (emit (Print (UploadOk JNull))
       (emit (Print (Response (JObj [(ustr ''id'', JStr (ustr ''b1''))])))
       (emit (Print Monitoring)
       (poll_requests (ok_response \<circ> never_listed) JNull))))) \<and>
   upload_and_poll_simple (Inr (JObj [(ustr ''id'', JStr [55296])])) (Inr \<circ> never_listed) =
     ([Post, Print (ErrorLine UnicodeEncodeError)], Normal)"
  using identifier_field_names
    [of "[(ustr ''id'', JStr (ustr ''b1''))]" "Inr \<circ> never_listed" "[]" "ok_response \<circ> never_listed"]
    identifier_field_names
    [of "[(ustr ''id'', JStr [55296])]" "Inr \<circ> never_listed" "[]" "ok_response \<circ> never_listed"]
  by (simp add: ustr_eq_iff printable_ustr printable_defaults surrogate_unprintable)

lemma poll_requests_raises:
  assumes "env 0 = Inl e"
  shows "poll_requests env t = ([Sleep 10, Get], Raise e)"
proof -
  have "attempt_requests (env 0) t 0 = ([Sleep 10, Get], Raise e)"
    using assms by (simp add: attempt_requests_def emit_def)
  then have "for_in ([] @ 0 # [Suc 0..<30]) (\<lambda>i. attempt_requests (env i) t i) =
      ([Sleep 10, Get], Raise e)"
    by (subst for_in_raise [where e = e]) simp_all
  moreover have "[0..<30] = [] @ 0 # [Suc 0..<30]"
    using range_split [of 0 30] by simp
  ultimately show ?thesis by (simp only: poll_requests_def)
qed

text \<open>
  C10 (as amended). \<open>test-upload.py\<close> checks the status code of the upload and of every
  poll. An upload answered with another code than 200 prints the code and the raw text and
  does not poll (when the text cannot be written, the script ends with
  \<open>UnicodeEncodeError\<close> after the code); a poll answered with another code than 200 prints
  the code and the loop goes on, without reading the body. No network call is guarded
  against exceptions: one raised by \<open>requests.post\<close>, or by \<open>requests.get\<close> in a pass, ends
  the script with that exception. The first pass is reached when the identifier can be
  printed; otherwise the script has ended at line 22 with \<open>UnicodeEncodeError\<close>.
\<close>

theorem requests_status_checks:
  "(status_code r \<noteq> 200 \<longrightarrow>
      upload_and_poll_requests (Inr r) env =
        (if str_printable (text_of r) then
           ([Print Uploading, Post, Print (UploadFailed (status_code r)),
             Print (ResponseText (text_of r))], Normal)
         else ([Print Uploading, Post, Print (UploadFailed (status_code r))],
               Raise UnicodeEncodeError))) \<and>
   (status_code r \<noteq> 200 \<longrightarrow>
      attempt_requests (Inr r) t i = ([Sleep 10, Get, Print (FailedStatus (status_code r))], Normal)) \<and>
   upload_and_poll_requests (Inl e) env = ([Print Uploading, Post], Raise e) \<and>
   attempt_requests (Inl e) t i = ([Sleep 10, Get], Raise e) \<and>
   (env 0 = Inl e \<longrightarrow>
      upload_and_poll_requests
          (Inr \<lparr>status_code = 200, json_result = Inr (JObj kvs), text_of = tx\<rparr>) env =
        (if printable (case map_of kvs (ustr ''batchId'') of None \<Rightarrow> JNull | Some v \<Rightarrow> v) then
           ([Print Uploading, Post,
             Print (UploadOk (case map_of kvs (ustr ''batchId'') of None \<Rightarrow> JNull | Some v \<Rightarrow> v)),
             Print (Response (JObj kvs)), Print Monitoring, Sleep 10, Get], Raise e)
         else ([Print Uploading, Post], Raise UnicodeEncodeError)))"
proof (intro conjI impI)
  assume "status_code r \<noteq> 200"
  then show "upload_and_poll_requests (Inr r) env =
        (if str_printable (text_of r) then
           ([Print Uploading, Post, Print (UploadFailed (status_code r)),
             Print (ResponseText (text_of r))], Normal)
         else ([Print Uploading, Post, Print (UploadFailed (status_code r))],
               Raise UnicodeEncodeError))"
    by (simp add: upload_and_poll_requests_def say_def emit_def)
next
  assume "status_code r \<noteq> 200"
  then show "attempt_requests (Inr r) t i =
      ([Sleep 10, Get, Print (FailedStatus (status_code r))], Normal)"
    by (simp add: attempt_requests_def say_def emit_def)
next
  show "upload_and_poll_requests (Inl e) env = ([Print Uploading, Post], Raise e)"
    by (simp add: upload_and_poll_requests_def say_def emit_def)
  show "attempt_requests (Inl e) t i = ([Sleep 10, Get], Raise e)"
    by (simp add: attempt_requests_def emit_def)
next
  assume "env 0 = Inl e"
  then show "upload_and_poll_requests
          (Inr \<lparr>status_code = 200, json_result = Inr (JObj kvs), text_of = tx\<rparr>) env =
        (if printable (case map_of kvs (ustr ''batchId'') of None \<Rightarrow> JNull | Some v \<Rightarrow> v) then
           ([Print Uploading, Post,
             Print (UploadOk (case map_of kvs (ustr ''batchId'') of None \<Rightarrow> JNull | Some v \<Rightarrow> v)),
             Print (Response (JObj kvs)), Print Monitoring, Sleep 10, Get], Raise e)
         else ([Print Uploading, Post], Raise UnicodeEncodeError))"
    by (simp add: requests_script poll_requests_raises emit_def)
qed

theorem requests_status_checks_witness:
  "upload_and_poll_requests
      (Inr \<lparr>status_code = 500, json_result = Inl JSONDecodeError, text_of = ustr ''oops''\<rparr>)
      unreachable =
     ([Print Uploading, Post, Print (UploadFailed 500), Print (ResponseText (ustr ''oops''))],
      Normal) \<and>
   attempt_requests
      (Inr \<lparr>status_code = 500, json_result = Inl JSONDecodeError, text_of = ustr ''oops''\<rparr>)
      JNull 0 =
     ([Sleep 10, Get, Print (FailedStatus 500)], Normal) \<and>
   upload_and_poll_requests
      (Inr \<lparr>status_code = 200, json_result = Inr (JObj []), text_of = []\<rparr>) unreachable =
     ([Print Uploading, Post, Print (UploadOk JNull), Print (Response (JObj [])),
       Print Monitoring, Sleep 10, Get], Raise ConnectionError)"
  using requests_status_checks
    [of "\<lparr>status_code = 500, json_result = Inl JSONDecodeError, text_of = ustr ''oops''\<rparr>"
        unreachable JNull 0 ConnectionError "[]" "[]"]
  by (simp add: unreachable_def str_printable_ustr printable_defaults)

text \<open>The claim as stated fails: the loop does guard its request with a status-code check.
  A poll answered with code 500 is not read, even when its body shows the target as
  completed; the pass prints the code and the loop goes on.\<close>

theorem poll_status_check_counterexample:
  "attempt_requests
      (Inr \<lparr>status_code = 500, json_result = Inr (completes_at 0 0), text_of = []\<rparr>)
      (JStr (ustr ''b1'')) 0 =
     ([Sleep 10, Get, Print (FailedStatus 500)], Normal)"
  by (simp add: attempt_requests_def say_def emit_def)

section \<open>Properties of the encoder\<close>

lemma encode_literals:
  "encode (ustr ''--'') = Inr ''--''"
  "encode (ustr ''Content-Disposition: form-data; name='') = Inr ''Content-Disposition: form-data; name=''"
  "encode (ustr ''; filename='') = Inr ''; filename=''"
  "encode (ustr ''Content-Type: text/csv'') = Inr ''Content-Type: text/csv''"
  "encode CRLF = Inr crlf"
  "encode DQ = Inr [CHR 0x22]"
  by (simp_all add: encode_ustr CRLF_def DQ_def crlf_def)

lemma hex_digit_range: "d < 16 \<Longrightarrow> 48 \<le> hex_digit d \<and> hex_digit d < 103"
  by (simp add: hex_digit_def)

lemma hex_range: "c \<in> set (hex rnd) \<Longrightarrow> 48 \<le> c \<and> c < 103"
proof -
  have "of_char b div 16 < (16::nat)" for b :: char
    using of_char_mod_256 [of b, where ?'a = nat]
    by (auto simp: less_mult_imp_div_less)
  moreover have "of_char b mod 16 < (16::nat)" for b :: char
    by simp
  ultimately have "c \<in> set [hex_digit (of_char b div 16), hex_digit (of_char b mod 16)]
      \<Longrightarrow> 48 \<le> c \<and> c < 103" for b :: char
    using hex_digit_range [of "of_char b div 16"] hex_digit_range [of "of_char b mod 16"]
    by auto
  then show "c \<in> set (hex rnd) \<Longrightarrow> 48 \<le> c \<and> c < 103"
    unfolding hex_def by auto
qed

lemma boundary_encoded:
  "encode (ustr ''----WebKitFormBoundary'' @ hex rnd) = Inr (boundary_bytes rnd)"
proof -
  have "\<forall>c\<in>set (hex rnd). c < 128" using hex_range [of _ rnd] by fastforce
  then show ?thesis
    by (simp add: encode_append encode_ustr encode_ascii boundary_bytes_def)
qed

lemma boundary_as_str:
  "ustr (boundary_bytes rnd) = ustr ''----WebKitFormBoundary'' @ hex rnd"
proof -
  have "\<forall>c\<in>set (hex rnd). c < 256" using hex_range [of _ rnd] by fastforce
  then have "map of_char (map char_of (hex rnd)) = hex rnd"
    by (induction "hex rnd" arbitrary: rnd) (simp_all add: map_idI)
  then show ?thesis by (simp add: boundary_bytes_def ustr_def)
qed

lemma write_field:
  assumes "encode b = Inr bb"
  shows "and_then (write_str (ustr ''--'' @ b @ CRLF) body) (\<lambda>body.
         and_then (write_str (ustr ''Content-Disposition: form-data; name='' @ DQ @ n @ DQ
                                @ CRLF @ CRLF) body) (\<lambda>body.
         and_then (write_str (v @ CRLF) body) k)) =
         (case encode n of
            Inl e \<Rightarrow> Inl e
          | Inr nb \<Rightarrow> (case encode v of
                         Inl e \<Rightarrow> Inl e
                       | Inr vb \<Rightarrow> k (body @ delimited_part bb (field_header nb, vb))))"
  using assms
  by (simp add: and_then_def write_str_def encode_append encode_literals delimited_part_def
      dash_boundary_def field_header_def split: sum.splits)

lemma write_file:
  assumes "encode b = Inr bb"
  shows "and_then (write_str (ustr ''--'' @ b @ CRLF) body) (\<lambda>body.
         and_then (write_str (ustr ''Content-Disposition: form-data; name='' @ DQ @ n @ DQ
                                @ ustr ''; filename='' @ DQ @ fn @ DQ @ CRLF) body) (\<lambda>body.
         and_then (write_str (ustr ''Content-Type: text/csv'' @ CRLF @ CRLF) body) (\<lambda>body.
         k (body @ file_data @ crlf)))) =
         (case encode n of
            Inl e \<Rightarrow> Inl e
          | Inr nb \<Rightarrow> (case encode fn of
                         Inl e \<Rightarrow> Inl e
                       | Inr fb \<Rightarrow> k (body @ delimited_part bb (file_header nb fb, file_data))))"
  using assms
  by (simp add: and_then_def write_str_def encode_append encode_literals delimited_part_def
      dash_boundary_def file_header_def split: sum.splits)

lemma add_fields_shape:
  assumes "encode b = Inr bb"
  shows "add_fields b fs body = Inr body' \<longleftrightarrow>
         (\<exists>ps. list_all2 field_part fs ps \<and> body' = body @ concat (map (delimited_part bb) ps))"
proof (induction fs arbitrary: body)
  case Nil
  then show ?case by auto
next
  case (Cons f fs)
  obtain n v where f: "f = (n, v)" by (cases f)
  show ?case
  proof (cases "encode n")
    case (Inl e)
    with f show ?thesis
      by (simp add: write_field [OF assms] field_part_def list_all2_Cons1)
  next
    case nb: (Inr nb)
    show ?thesis
    proof (cases "encode v")
      case (Inl e)
      with f nb show ?thesis
        by (simp add: write_field [OF assms] field_part_def list_all2_Cons1)
    next
      case (Inr vb)
      have "(\<exists>ps. list_all2 field_part (f # fs) ps \<and>
                 body' = body @ concat (map (delimited_part bb) ps)) \<longleftrightarrow>
            (\<exists>ps. list_all2 field_part fs ps \<and>
                 body' = (body @ delimited_part bb (field_header nb, vb))
                           @ concat (map (delimited_part bb) ps))"
        using f nb Inr
        by (auto simp: list_all2_Cons1 field_part_def delimited_part_def)
      with f nb Inr Cons.IH [of "body @ delimited_part bb (field_header nb, vb)"]
      show ?thesis by (simp add: write_field [OF assms])
    qed
  qed
qed

lemma add_files_shape:
  assumes "encode b = Inr bb"
  shows "add_files b fls body = Inr body' \<longleftrightarrow>
         (\<exists>qs. list_all2 file_part fls qs \<and> body' = body @ concat (map (delimited_part bb) qs))"
proof (induction fls arbitrary: body)
  case Nil
  then show ?case by auto
next
  case (Cons f fls)
  obtain n fn file_data where f: "f = (n, fn, file_data)" by (cases f)
  show ?case
  proof (cases "encode n")
    case (Inl e)
    with f show ?thesis
      by (simp add: write_file [OF assms] file_part_def list_all2_Cons1)
  next
    case nb: (Inr nb)
    show ?thesis
    proof (cases "encode fn")
      case (Inl e)
      with f nb show ?thesis
        by (simp add: write_file [OF assms] file_part_def list_all2_Cons1)
    next
      case (Inr fb)
      have "(\<exists>qs. list_all2 file_part (f # fls) qs \<and>
                 body' = body @ concat (map (delimited_part bb) qs)) \<longleftrightarrow>
            (\<exists>qs. list_all2 file_part fls qs \<and>
                 body' = (body @ delimited_part bb (file_header nb fb, file_data))
                           @ concat (map (delimited_part bb) qs))"
        using f nb Inr
        by (auto simp: list_all2_Cons1 file_part_def delimited_part_def)
      with f nb Inr Cons.IH [of "body @ delimited_part bb (file_header nb fb, file_data)"]
      show ?thesis by (simp add: write_file [OF assms])
    qed
  qed
qed

lemma write_close:
  assumes "encode b = Inr bb"
  shows "write_str (ustr ''--'' @ b @ ustr ''--'' @ CRLF) body =
           Inr (body @ dash_boundary bb @ ''--'' @ crlf)"
  using assms by (simp add: write_str_def encode_append encode_literals dash_boundary_def)

lemma encoder_core:
  assumes "encode b = Inr bb"
  shows "and_then (add_fields b fs []) (\<lambda>body.
         and_then (add_files b fls body) (\<lambda>body.
         and_then (write_str (ustr ''--'' @ b @ ustr ''--'' @ CRLF) body) (\<lambda>body.
         Inr (body, ustr ''multipart/form-data; boundary='' @ b)))) = Inr (body, ct) \<longleftrightarrow>
     (\<exists>ps qs. list_all2 field_part fs ps \<and> list_all2 file_part fls qs \<and>
        body = concat (map (delimited_part bb) (ps @ qs)) @ dash_boundary bb @ ''--'' @ crlf \<and>
        ct = ustr ''multipart/form-data; boundary='' @ b)"
proof -
  have "and_then (add_fields b fs []) (\<lambda>body.
         and_then (add_files b fls body) (\<lambda>body.
         and_then (write_str (ustr ''--'' @ b @ ustr ''--'' @ CRLF) body) (\<lambda>body.
         Inr (body, ustr ''multipart/form-data; boundary='' @ b)))) = Inr (body, ct) \<longleftrightarrow>
     (\<exists>b1 b2. add_fields b fs [] = Inr b1 \<and> add_files b fls b1 = Inr b2 \<and>
        body = b2 @ dash_boundary bb @ ''--'' @ crlf \<and>
        ct = ustr ''multipart/form-data; boundary='' @ b)"
    by (auto simp: and_then_def write_close [OF assms] split: sum.splits)
  also have "\<dots> \<longleftrightarrow> (\<exists>ps qs. list_all2 field_part fs ps \<and> list_all2 file_part fls qs \<and>
        body = concat (map (delimited_part bb) (ps @ qs)) @ dash_boundary bb @ ''--'' @ crlf \<and>
        ct = ustr ''multipart/form-data; boundary='' @ b)"
    (is "?L \<longleftrightarrow> ?R")
  proof
    assume ?L
    then obtain b1 b2 where 1: "add_fields b fs [] = Inr b1" "add_files b fls b1 = Inr b2"
      "body = b2 @ dash_boundary bb @ ''--'' @ crlf" "ct = ustr ''multipart/form-data; boundary='' @ b"
      by blast
    from 1(1) obtain ps where ps: "list_all2 field_part fs ps"
      "b1 = concat (map (delimited_part bb) ps)"
      by (auto simp: add_fields_shape [OF assms])
    from 1(2) obtain qs where qs: "list_all2 file_part fls qs"
      "b2 = b1 @ concat (map (delimited_part bb) qs)"
      by (auto simp: add_files_shape [OF assms])
    from 1 ps qs show ?R by (intro exI [of _ ps] exI [of _ qs]) simp
  next
    assume ?R
    then obtain ps qs where 2: "list_all2 field_part fs ps" "list_all2 file_part fls qs"
      "body = concat (map (delimited_part bb) (ps @ qs)) @ dash_boundary bb @ ''--'' @ crlf"
      "ct = ustr ''multipart/form-data; boundary='' @ b"
      by blast
    then have "add_fields b fs [] = Inr (concat (map (delimited_part bb) ps))"
      by (auto simp: add_fields_shape [OF assms])
    moreover from 2 have "add_files b fls (concat (map (delimited_part bb) ps)) =
        Inr (concat (map (delimited_part bb) ps) @ concat (map (delimited_part bb) qs))"
      by (auto simp: add_files_shape [OF assms])
    ultimately show ?L using 2 by simp
  qed
  finally show ?thesis .
qed

text \<open>What the encoder returns, when it returns: the parts of the fields, then those of
  the files, then the close delimiter; and the content type that names the boundary.\<close>

lemma encoder_shape:
  "encode_multipart_formdata rnd fs fls = Inr (body, ct) \<longleftrightarrow>
     (\<exists>ps qs. list_all2 field_part fs ps \<and> list_all2 file_part fls qs \<and>
        body = concat (map (delimited_part (boundary_bytes rnd)) (ps @ qs))
                 @ dash_boundary (boundary_bytes rnd) @ ''--'' @ crlf \<and>
        ct = ustr ''multipart/form-data; boundary='' @ ustr (boundary_bytes rnd))"
  unfolding encode_multipart_formdata_def Let_def boundary_as_str
  by (rule encoder_core [OF boundary_encoded])

lemma encodable_encode: "encodable s \<Longrightarrow> \<exists>bs. encode s = Inr bs"
proof (induction s)
  case Nil
  then show ?case by simp
next
  case (Cons c s)
  then obtain bs where "encode s = Inr bs" by (auto simp: encodable_def)
  moreover from Cons.prems have "\<exists>cs. utf8 c = Inr cs"
    by (auto simp: encodable_def utf8_def)
  ultimately show ?case by auto
qed

lemma fields_total:
  "\<forall>f\<in>set fs. encodable (fst f) \<and> encodable (snd f) \<Longrightarrow> \<exists>ps. list_all2 field_part fs ps"
proof (induction fs)
  case Nil
  then show ?case by simp
next
  case (Cons f fs)
  then obtain ps where ps: "list_all2 field_part fs ps" by auto
  from Cons.prems obtain nb vb where "encode (fst f) = Inr nb" "encode (snd f) = Inr vb"
    by (auto dest!: encodable_encode)
  then have "field_part f (field_header nb, vb)" by (simp add: field_part_def)
  with ps have "list_all2 field_part (f # fs) ((field_header nb, vb) # ps)" by simp
  then show ?case ..
qed

lemma files_total:
  "\<forall>f\<in>set fls. encodable (fst f) \<and> encodable (fst (snd f)) \<Longrightarrow> \<exists>qs. list_all2 file_part fls qs"
proof (induction fls)
  case Nil
  then show ?case by simp
next
  case (Cons f fls)
  then obtain qs where qs: "list_all2 file_part fls qs" by auto
  from Cons.prems obtain nb fb where "encode (fst f) = Inr nb" "encode (fst (snd f)) = Inr fb"
    by (auto dest!: encodable_encode)
  then have "file_part f (file_header nb fb, snd (snd f))" by (simp add: file_part_def)
  with qs have "list_all2 file_part (f # fls) ((file_header nb fb, snd (snd f)) # qs)" by simp
  then show ?case ..
qed

text \<open>The encoder returns whenever every string it is given can be encoded.\<close>

lemma encoder_total:
  assumes "\<forall>f\<in>set fs. encodable (fst f) \<and> encodable (snd f)"
    and "\<forall>f\<in>set fls. encodable (fst f) \<and> encodable (fst (snd f))"
  shows "\<exists>body ct. encode_multipart_formdata rnd fs fls = Inr (body, ct)"
proof -
  from fields_total [OF assms(1)] obtain ps where "list_all2 field_part fs ps" ..
  moreover from files_total [OF assms(2)] obtain qs where "list_all2 file_part fls qs" ..
  ultimately show ?thesis unfolding encoder_shape by blast
qed

lemma ustr_encodable: "\<forall>c\<in>set s. of_char c < (128::nat) \<Longrightarrow> encodable (ustr s)"
  by (auto simp: encodable_def ustr_def list_all_iff)

lemma sample_encodes:
  "\<exists>body ct. encode_multipart_formdata rnd script_fields [sample_file] = Inr (body, ct)"
  by (rule encoder_total) (simp_all add: script_fields_def sample_file_def ustr_encodable)

text \<open>
  C3. The content type that the encoder returns is \<open>multipart/form-data; boundary=\<close>
  followed by the boundary token, and that token, octet for octet, is the one in the
  delimiter line of every part of the returned body and in its close delimiter.
\<close>

theorem content_type_names_boundary:
  assumes "encode_multipart_formdata rnd fs fls = Inr (body, ct)"
  shows "take 30 ct = ustr ''multipart/form-data; boundary='' \<and>
         drop 30 ct = ustr ''----WebKitFormBoundary'' @ hex rnd \<and>
         (\<exists>ps. length ps = length fs + length fls \<and>
            body = concat (map (delimited_part (map char_of (drop 30 ct))) ps)
                     @ dash_boundary (map char_of (drop 30 ct)) @ ''--'' @ crlf)"
proof -
  from assms obtain ps qs where *: "list_all2 field_part fs ps" "list_all2 file_part fls qs"
    "body = concat (map (delimited_part (boundary_bytes rnd)) (ps @ qs))
                 @ dash_boundary (boundary_bytes rnd) @ ''--'' @ crlf"
    "ct = ustr ''multipart/form-data; boundary='' @ ustr (boundary_bytes rnd)"
    unfolding encoder_shape by blast
  have len: "length (ustr ''multipart/form-data; boundary='') = 30"
    by (simp add: ustr_def)
  have again: "map char_of (ustr (boundary_bytes rnd)) = boundary_bytes rnd"
    by (simp add: ustr_def comp_def)
  from *(1,2) have "length (ps @ qs) = length fs + length fls"
    using list_all2_lengthD [of field_part fs ps] list_all2_lengthD [of file_part fls qs]
    by simp
  with *(3) have "\<exists>ps'. length ps' = length fs + length fls \<and>
      body = concat (map (delimited_part (boundary_bytes rnd)) ps')
               @ dash_boundary (boundary_bytes rnd) @ ''--'' @ crlf"
    by blast
  with *(4) len again show ?thesis
    by (simp add: boundary_as_str [symmetric])
qed

theorem content_type_names_boundary_witness:
  "\<exists>body ct ps. encode_multipart_formdata zero_rnd script_fields [sample_file] = Inr (body, ct) \<and>
     take 30 ct = ustr ''multipart/form-data; boundary='' \<and>
     drop 30 ct = ustr ''----WebKitFormBoundary'' @ hex zero_rnd \<and>
     length ps = 5 \<and>
     body = concat (map (delimited_part (map char_of (drop 30 ct))) ps)
              @ dash_boundary (map char_of (drop 30 ct)) @ ''--'' @ crlf"
proof -
  from sample_encodes obtain body ct where
    e: "encode_multipart_formdata zero_rnd script_fields [sample_file] = Inr (body, ct)"
    by blast
  from content_type_names_boundary [OF e] obtain ps where
    *: "take 30 ct = ustr ''multipart/form-data; boundary=''"
       "drop 30 ct = ustr ''----WebKitFormBoundary'' @ hex zero_rnd"
       "length ps = length script_fields + length [sample_file]"
       "body = concat (map (delimited_part (map char_of (drop 30 ct))) ps)
              @ dash_boundary (map char_of (drop 30 ct)) @ ''--'' @ crlf"
    by blast
  from *(3) have "length ps = 5" by (simp add: script_fields_def)
  with * e show ?thesis by blast
qed

section \<open>Properties of the decoder\<close>

lemma find_sub_prefix: "prefix pat xs \<Longrightarrow> find_sub pat xs = Some ([], drop (length pat) xs)"
  by (cases xs) auto

lemma find_sub_hit: "find_sub pat (pat @ rest) = Some ([], rest)"
  by (simp add: find_sub_prefix)

lemma find_sub_skip:
  "x \<notin> set xs \<Longrightarrow>
   find_sub (x # p) (xs @ ys) = map_option (\<lambda>(a, b). (xs @ a, b)) (find_sub (x # p) ys)"
proof (induction xs)
  case Nil
  show ?case by (simp add: option.map_ident)
next
  case (Cons y xs)
  then show ?case by (simp add: option.map_comp comp_def split_def)
qed

lemma find_sub_crlf_step:
  "y \<noteq> x \<Longrightarrow>
   find_sub (CHR 0x0D # CHR 0x0A # x # p) (CHR 0x0D # CHR 0x0A # y # ys) =
     map_option (\<lambda>(a, b). (CHR 0x0D # CHR 0x0A # a, b))
       (find_sub (CHR 0x0D # CHR 0x0A # x # p) (y # ys))"
  by (simp add: option.map_comp comp_def split_def)

text \<open>A pattern that cannot overlap itself is first found behind a text that does not
  hold it.\<close>

lemma find_sub_guard:
  assumes "find_sub pat xs = None" "pat \<noteq> []" "hd pat \<notin> set (tl pat)"
  shows "find_sub pat (xs @ pat @ rest) = Some (xs, rest)"
  using assms(1)
proof (induction xs)
  case Nil
  show ?case by (simp add: find_sub_hit)
next
  case (Cons x xs)
  from Cons.prems have np: "\<not> prefix pat (x # xs)" and rec: "find_sub pat xs = None"
    by (auto split: if_splits)
  have "\<not> prefix pat ((x # xs) @ pat @ rest)"
  proof
    assume "prefix pat ((x # xs) @ pat @ rest)"
    with np prefix_append [of pat "x # xs" "pat @ rest"]
    obtain c where c: "pat = (x # xs) @ c" "prefix c (pat @ rest)"
      by blast
    with np have "c \<noteq> []" by auto
    with c assms(2) have "hd c = hd pat" by (cases c; cases pat) auto
    moreover from c \<open>c \<noteq> []\<close> have "hd c \<in> set (tl pat)" by (cases c) auto
    ultimately show False using assms(3) by simp
  qed
  with Cons.IH [OF rec] show ?case by simp
qed

lemma find_sub_Some: "find_sub pat xs = Some (a, b) \<Longrightarrow> xs = a @ pat @ b"
proof (induction xs arbitrary: a)
  case Nil
  then show ?case by (simp split: if_splits)
next
  case (Cons x xs)
  show ?case
  proof (cases "prefix pat (x # xs)")
    case True
    with Cons.prems show ?thesis by (auto simp: prefix_def)
  next
    case False
    with Cons.prems obtain a' where "find_sub pat xs = Some (a', b)" "a = x # a'"
      by auto
    with Cons.IH show ?thesis by simp
  qed
qed

lemma find_sub_None_iff: "find_sub pat xs = None \<longleftrightarrow> \<not> sublist pat xs"
proof
  assume n: "find_sub pat xs = None"
  show "\<not> sublist pat xs"
  proof
    assume "sublist pat xs"
    then obtain ps ss where "xs = ps @ pat @ ss" by (auto simp: sublist_def)
    then have "find_sub pat xs \<noteq> None"
    proof (induction ps arbitrary: xs)
      case Nil
      then show ?case by (simp add: find_sub_hit)
    next
      case (Cons p ps)
      then show ?case by auto
    qed
    with n show False by simp
  qed
next
  assume "\<not> sublist pat xs"
  then show "find_sub pat xs = None"
    by (cases "find_sub pat xs") (auto dest!: find_sub_Some simp: sublist_def)
qed

declare find_sub.simps [simp del]

lemma delimiter_after_header:
  assumes "CHR 0x0D \<notin> set h"
  shows "find_sub (delimiter bb) (h @ crlf @ crlf @ zs) =
           map_option (\<lambda>(a, b). (h @ crlf @ a, b)) (find_sub (delimiter bb) (crlf @ zs))"
proof -
  have "find_sub (delimiter bb) (h @ crlf @ crlf @ zs) =
      map_option (\<lambda>(a, b). (h @ a, b)) (find_sub (delimiter bb) (crlf @ crlf @ zs))"
    using find_sub_skip [OF assms, of "CHR 0x0A # CHR ''-'' # CHR ''-'' # bb" "crlf @ crlf @ zs"]
    by (simp add: crlf_def delimiter_def dash_boundary_def)
  also have "find_sub (delimiter bb) (crlf @ crlf @ zs) =
      map_option (\<lambda>(a, b). (crlf @ a, b)) (find_sub (delimiter bb) (crlf @ zs))"
    using find_sub_crlf_step [of "CHR 0x0D" "CHR ''-''" "CHR ''-'' # bb" "CHR 0x0A # zs"]
    by (simp add: crlf_def delimiter_def dash_boundary_def)
  finally show ?thesis by (simp add: option.map_comp comp_def split_def)
qed

lemma empty_line_after_header:
  assumes "CHR 0x0D \<notin> set h"
  shows "find_sub (crlf @ crlf) (h @ crlf @ crlf @ c) = Some (h, c)"
  using find_sub_skip [OF assms, of "CHR 0x0A # crlf" "crlf @ crlf @ c"]
    find_sub_hit [of "crlf @ crlf" c]
  by (simp add: crlf_def)

lemma delimiter_after_two_headers:
  assumes "CHR 0x0D \<notin> set a" "CHR 0x0D \<notin> set b" "b \<noteq> []" "hd b \<noteq> CHR ''-''"
  shows "find_sub (delimiter bb) (a @ crlf @ b @ crlf @ crlf @ zs) =
           map_option (\<lambda>(x, y). (a @ crlf @ b @ crlf @ x, y))
             (find_sub (delimiter bb) (crlf @ zs))"
proof -
  from assms obtain y b' where b: "b = y # b'" "y \<noteq> CHR ''-''" by (cases b) auto
  have "find_sub (delimiter bb) (a @ crlf @ b @ crlf @ crlf @ zs) =
      map_option (\<lambda>(x, y). (a @ x, y))
        (find_sub (delimiter bb) (crlf @ b @ crlf @ crlf @ zs))"
    using find_sub_skip [OF assms(1), of "CHR 0x0A # CHR ''-'' # CHR ''-'' # bb"
        "crlf @ b @ crlf @ crlf @ zs"]
    by (simp add: crlf_def delimiter_def dash_boundary_def)
  also have "find_sub (delimiter bb) (crlf @ b @ crlf @ crlf @ zs) =
      map_option (\<lambda>(x, y). (crlf @ x, y))
        (find_sub (delimiter bb) (b @ crlf @ crlf @ zs))"
    using b find_sub_crlf_step [of y "CHR ''-''" "CHR ''-'' # bb" "b' @ crlf @ crlf @ zs"]
    by (simp add: crlf_def delimiter_def dash_boundary_def)
  also have "find_sub (delimiter bb) (b @ crlf @ crlf @ zs) =
      map_option (\<lambda>(x, y). (b @ crlf @ x, y)) (find_sub (delimiter bb) (crlf @ zs))"
    by (rule delimiter_after_header [OF assms(2)])
  finally show ?thesis by (simp add: option.map_comp comp_def split_def)
qed

lemma empty_line_after_two_headers:
  assumes "CHR 0x0D \<notin> set a" "CHR 0x0D \<notin> set b" "b \<noteq> []"
  shows "find_sub (crlf @ crlf) (a @ crlf @ b @ crlf @ crlf @ c) = Some (a @ crlf @ b, c)"
proof -
  from assms obtain y b' where b: "b = y # b'" "y \<noteq> CHR 0x0D" by (cases b) auto
  have "find_sub (crlf @ crlf) (a @ crlf @ b @ crlf @ crlf @ c) =
      map_option (\<lambda>(x, y). (a @ x, y)) (find_sub (crlf @ crlf) (crlf @ b @ crlf @ crlf @ c))"
    using find_sub_skip [OF assms(1), of "CHR 0x0A # crlf" "crlf @ b @ crlf @ crlf @ c"]
    by (simp add: crlf_def)
  also have "find_sub (crlf @ crlf) (crlf @ b @ crlf @ crlf @ c) =
      map_option (\<lambda>(x, y). (crlf @ x, y)) (find_sub (crlf @ crlf) (b @ crlf @ crlf @ c))"
    using b find_sub_crlf_step [of y "CHR 0x0D" "[CHR 0x0A]" "b' @ crlf @ crlf @ c"]
    by (simp add: crlf_def)
  also have "find_sub (crlf @ crlf) (b @ crlf @ crlf @ c) = Some (b, c)"
    by (rule empty_line_after_header [OF assms(2)])
  finally show ?thesis by simp
qed

lemma content_then_delimiter:
  assumes "CHR 0x0D \<notin> set bb" "find_sub (delimiter bb) (crlf @ c) = None"
  shows "find_sub (delimiter bb) (crlf @ c @ delimiter bb @ rest) = Some (crlf @ c, rest)"
proof -
  have "delimiter bb \<noteq> []" "hd (delimiter bb) \<notin> set (tl (delimiter bb))"
    using assms(1) by (simp_all add: delimiter_def dash_boundary_def crlf_def)
  from find_sub_guard [OF assms(2) this, of rest] show ?thesis by simp
qed

lemma no_crlf_in_front: "CHR 0x0D \<notin> set h \<Longrightarrow> h \<noteq> [] \<Longrightarrow> \<not> prefix crlf (h @ zs)"
  by (cases h) (auto simp: crlf_def)

lemma splits_back_one_header:
  assumes "CHR 0x0D \<notin> set h" "h \<noteq> []" "CHR 0x0D \<notin> set bb"
    and "find_sub (delimiter bb) (crlf @ c) = None"
  shows "splits_back bb (h, c)"
proof -
  have "split_part (h @ crlf @ crlf @ c) = (h, c)"
    by (simp add: split_part_def empty_line_after_header [OF assms(1)]
        no_crlf_in_front [OF assms(1,2)])
  then show ?thesis
    by (simp add: splits_back_def delimiter_after_header [OF assms(1)]
        content_then_delimiter [OF assms(3,4)])
qed

lemma splits_back_two_headers:
  assumes "CHR 0x0D \<notin> set a" "a \<noteq> []" "CHR 0x0D \<notin> set b" "b \<noteq> []" "hd b \<noteq> CHR ''-''"
    and "CHR 0x0D \<notin> set bb" "find_sub (delimiter bb) (crlf @ c) = None"
  shows "splits_back bb (a @ crlf @ b, c)"
proof -
  have "split_part (a @ crlf @ b @ crlf @ crlf @ c) = (a @ crlf @ b, c)"
    by (simp add: split_part_def empty_line_after_two_headers [OF assms(1,3,4)]
        no_crlf_in_front [OF assms(1,2)])
  then show ?thesis
    using delimiter_after_two_headers [OF assms(1,3,4,5), of bb]
    by (simp add: splits_back_def content_then_delimiter [OF assms(6,7)])
qed

lemma crlf_facts:
  "length crlf = 2" "prefix crlf (crlf @ xs)" "\<not> prefix ''--'' (crlf @ xs)"
  by (simp_all add: crlf_def)

lemma parse_one_part:
  assumes "splits_back bb p"
  shows "parse_parts bb (crlf @ fst p @ crlf @ crlf @ snd p @ delimiter bb @ rest) =
           map_option ((#) p) (parse_parts bb rest)"
  using assms
  by (subst parse_parts.simps) (simp add: crlf_facts splits_back_def)

lemma parse_all_parts:
  assumes "\<forall>p\<in>set ps. splits_back bb p"
  shows "parse_parts bb
           (concat (map (\<lambda>p. crlf @ fst p @ crlf @ crlf @ snd p @ delimiter bb) ps) @ ''--'' @ tail) =
         Some ps"
  using assms
proof (induction ps)
  case Nil
  show ?case by (subst parse_parts.simps) simp
next
  case (Cons p ps)
  then show ?case by (simp add: parse_one_part)
qed

lemma delimiters_shift:
  "concat (map (delimited_part bb) ps) @ dash_boundary bb @ xs =
   dash_boundary bb @
     concat (map (\<lambda>p. crlf @ fst p @ crlf @ crlf @ snd p @ delimiter bb) ps) @ xs"
  by (induction ps) (simp_all add: delimited_part_def delimiter_def)

lemma parse_multipart_parts:
  assumes "\<forall>p\<in>set ps. splits_back bb p"
  shows "parse_multipart bb (concat (map (delimited_part bb) ps) @ dash_boundary bb @ ''--'' @ crlf) =
         Some ps"
  unfolding delimiters_shift parse_multipart_def
  using parse_all_parts [OF assms, of crlf] by simp

lemma received_parts:
  "received (body, ustr ''multipart/form-data; boundary='' @ ustr bb) = parse_multipart bb body"
proof -
  have "length (ustr ''multipart/form-data; boundary='') = 30" by (simp add: ustr_def)
  moreover have "map char_of (ustr bb) = bb" by (simp add: ustr_def comp_def)
  ultimately show ?thesis by (simp add: received_def)
qed

text \<open>UTF-8 writes the octet \<open>0x0D\<close> for the code point 13 only.\<close>

lemma char_of_CR: "char_of (n::nat) = CHR 0x0D \<Longrightarrow> n mod 256 = 13"
proof -
  assume "char_of n = CHR 0x0D"
  then have "of_char (char_of n) = (of_char (CHR 0x0D) :: nat)" by simp
  then show ?thesis by (simp add: of_char_of)
qed

lemma utf8_no_CR:
  assumes "c < 55296 \<or> 57344 \<le> c \<and> c < 1114112" "c \<noteq> 13" "utf8 c = Inr cs"
  shows "CHR 0x0D \<notin> set cs"
proof
  assume "CHR 0x0D \<in> set cs"
  with assms(3) consider
      "c < 128" "char_of c = CHR 0x0D"
    | "c < 2048" "char_of (192 + c div 64) = CHR 0x0D \<or> char_of (128 + c mod 64) = CHR 0x0D"
    | "c < 65536" "char_of (224 + c div 4096) = CHR 0x0D \<or>
         char_of (128 + c div 64 mod 64) = CHR 0x0D \<or> char_of (128 + c mod 64) = CHR 0x0D"
    | "char_of (240 + c div 262144) = CHR 0x0D \<or> char_of (128 + c div 4096 mod 64) = CHR 0x0D \<or>
         char_of (128 + c div 64 mod 64) = CHR 0x0D \<or> char_of (128 + c mod 64) = CHR 0x0D"
    by (auto simp: utf8_def split: if_splits)
  then show False
  proof cases
    case 1
    with assms(2) show False by (auto dest!: char_of_CR)
  next
    case 2
    then show False by (auto dest!: char_of_CR; arith)
  next
    case 3
    then show False by (auto dest!: char_of_CR; arith)
  next
    case 4
    with assms(1) show False by (auto dest!: char_of_CR; arith)
  qed
qed

lemma encode_no_CR:
  "encodable s \<Longrightarrow> 13 \<notin> set s \<Longrightarrow> encode s = Inr bs \<Longrightarrow> CHR 0x0D \<notin> set bs"
proof (induction s arbitrary: bs)
  case Nil
  then show ?case by simp
next
  case (Cons c s)
  from Cons.prems(3) obtain cs rest where
    *: "utf8 c = Inr cs" "encode s = Inr rest" "bs = cs @ rest"
    by (auto split: sum.splits)
  from Cons.prems(1,2) * have "CHR 0x0D \<notin> set cs"
    by (intro utf8_no_CR [of c]) (auto simp: encodable_def)
  moreover from Cons * have "CHR 0x0D \<notin> set rest" by (auto simp: encodable_def)
  ultimately show ?case using * by simp
qed

lemma boundary_no_CR: "CHR 0x0D \<notin> set (boundary_bytes rnd)"
proof
  assume "CHR 0x0D \<in> set (boundary_bytes rnd)"
  then obtain c where c: "c \<in> set (hex rnd)" "char_of c = CHR 0x0D"
    by (auto simp: boundary_bytes_def)
  from hex_range [OF c(1)] char_of_CR [OF c(2)] show False by simp
qed

lemma field_splits_back:
  assumes "field_part f p" "encodable (fst f)" "13 \<notin> set (fst f)" "CHR 0x0D \<notin> set bb"
    and "\<not> sublist (delimiter bb) (crlf @ snd p)"
  shows "splits_back bb p"
proof -
  from assms(1) obtain nb where nb: "encode (fst f) = Inr nb" "fst p = field_header nb"
    by (auto simp: field_part_def split: sum.splits)
  from encode_no_CR [OF assms(2,3) nb(1)] have "CHR 0x0D \<notin> set (field_header nb)"
    by (simp add: field_header_def)
  moreover have "field_header nb \<noteq> []" by (simp add: field_header_def)
  moreover from assms(5) have "find_sub (delimiter bb) (crlf @ snd p) = None"
    by (simp add: find_sub_None_iff)
  ultimately have "splits_back bb (field_header nb, snd p)"
    using assms(4) by (intro splits_back_one_header)
  with nb show ?thesis by (metis prod.collapse)
qed

lemma file_splits_back:
  assumes "file_part f q" "encodable (fst f)" "13 \<notin> set (fst f)"
    and "encodable (fst (snd f))" "13 \<notin> set (fst (snd f))" "CHR 0x0D \<notin> set bb"
    and "\<not> sublist (delimiter bb) (crlf @ snd q)"
  shows "splits_back bb q"
proof -
  from assms(1) obtain nb fb where nb: "encode (fst f) = Inr nb" "encode (fst (snd f)) = Inr fb"
    "fst q = file_header nb fb"
    by (auto simp: file_part_def split: sum.splits)
  let ?a = "''Content-Disposition: form-data; name='' @ [CHR 0x22] @ nb @ [CHR 0x22]
       @ ''; filename='' @ [CHR 0x22] @ fb @ [CHR 0x22]"
  let ?b = "''Content-Type: text/csv''"
  have fh: "file_header nb fb = ?a @ crlf @ ?b" by (simp add: file_header_def)
  from encode_no_CR [OF assms(2,3) nb(1)] encode_no_CR [OF assms(4,5) nb(2)]
  have "CHR 0x0D \<notin> set ?a" by simp
  moreover have "?a \<noteq> []" "CHR 0x0D \<notin> set ?b" "?b \<noteq> []" "hd ?b \<noteq> CHR ''-''" by simp_all
  moreover from assms(7) have "find_sub (delimiter bb) (crlf @ snd q) = None"
    by (simp add: find_sub_None_iff)
  ultimately have "splits_back bb (?a @ crlf @ ?b, snd q)"
    using assms(6) by (intro splits_back_two_headers)
  with nb fh show ?thesis by (metis prod.collapse)
qed

lemma list_all2_right: "list_all2 P xs ys \<Longrightarrow> y \<in> set ys \<Longrightarrow> \<exists>x\<in>set xs. P x y"
  by (induction rule: list_all2_induct) auto

text \<open>When no name holds a carriage return and no line of a content begins with the
  boundary, the decoder finds in the returned body the parts that the encoder wrote.\<close>

lemma parts_come_back:
  assumes e: "encode_multipart_formdata rnd fs [(name, filename, file_data)] = Inr (body, ct)"
    and "\<forall>f\<in>set fs. encodable (fst f) \<and> 13 \<notin> set (fst f)"
    and "encodable name \<and> encodable filename \<and> 13 \<notin> set name \<and> 13 \<notin> set filename"
    and "\<forall>f\<in>set fs. \<forall>v. encode (snd f) = Inr v \<longrightarrow>
           \<not> sublist (delimiter (boundary_bytes rnd)) (crlf @ v)"
    and "\<not> sublist (delimiter (boundary_bytes rnd)) (crlf @ file_data)"
  shows "\<exists>ps q. list_all2 field_part fs ps \<and> file_part (name, filename, file_data) q \<and>
           body = concat (map (delimited_part (boundary_bytes rnd)) (ps @ [q]))
                    @ dash_boundary (boundary_bytes rnd) @ ''--'' @ crlf \<and>
           received (body, ct) = Some (ps @ [q])"
proof -
  let ?bb = "boundary_bytes rnd"
  from e obtain ps qs where *: "list_all2 field_part fs ps"
    "list_all2 file_part [(name, filename, file_data)] qs"
    "body = concat (map (delimited_part ?bb) (ps @ qs)) @ dash_boundary ?bb @ ''--'' @ crlf"
    "ct = ustr ''multipart/form-data; boundary='' @ ustr ?bb"
    unfolding encoder_shape by blast
  from *(2) obtain q where q: "qs = [q]" "file_part (name, filename, file_data) q"
    by (auto simp: list_all2_Cons1)
  then have data: "snd q = file_data" by (auto simp: file_part_def split: sum.splits)
  have "splits_back ?bb p" if "p \<in> set ps" for p
  proof -
    from list_all2_right [OF *(1) that] obtain f where f: "f \<in> set fs" "field_part f p" ..
    then have "encode (snd f) = Inr (snd p)" by (auto simp: field_part_def split: sum.splits)
    with f assms(2,4) show ?thesis
      by (intro field_splits_back [of f]) (auto simp: boundary_no_CR)
  qed
  moreover have "splits_back ?bb q"
    using q(2) assms(3,5) data
    by (intro file_splits_back [of "(name, filename, file_data)"]) (auto simp: boundary_no_CR)
  ultimately have "\<forall>p\<in>set (ps @ qs). splits_back ?bb p" using q by auto
  from parse_multipart_parts [OF this] * have "received (body, ct) = Some (ps @ qs)"
    by (simp add: received_parts)
  with * q show ?thesis by blast
qed

text \<open>
  C1 (as amended). Let the names and values of the fields, the name of the file part and
  the file name be strings that can be encoded, let no name and not the file name hold a
  carriage return, and let no line of a value or of the file's octets begin with the
  boundary (the delimiter \<open>CRLF "--" boundary\<close> does not occur in \<open>CRLF\<close> followed by the
  content). Then the encoder returns, and the decoder, reading the boundary from the
  returned content type, recovers from the returned body exactly the UTF-8 octets of the
  values, in order, and then the file's octets, embedded \<open>CRLF\<close>s included.
\<close>

theorem round_trip_recovers:
  assumes "\<forall>f\<in>set fs. encodable (fst f) \<and> encodable (snd f) \<and> 13 \<notin> set (fst f)"
    and "encodable name \<and> encodable filename \<and> 13 \<notin> set name \<and> 13 \<notin> set filename"
    and "\<forall>f\<in>set fs. \<forall>v. encode (snd f) = Inr v \<longrightarrow>
           \<not> sublist (delimiter (boundary_bytes rnd)) (crlf @ v)"
    and "\<not> sublist (delimiter (boundary_bytes rnd)) (crlf @ file_data)"
  shows "\<exists>vs. list_all2 (\<lambda>f v. encode (snd f) = Inr v) fs vs \<and>
              round_trip rnd fs [(name, filename, file_data)] = Some (vs @ [file_data])"
proof -
  from assms(1,2) have "\<exists>body ct. encode_multipart_formdata rnd fs [(name, filename, file_data)] =
      Inr (body, ct)"
    by (intro encoder_total) auto
  then obtain body ct where e: "encode_multipart_formdata rnd fs [(name, filename, file_data)] =
      Inr (body, ct)" by blast
  from assms(1) have n: "\<forall>f\<in>set fs. encodable (fst f) \<and> 13 \<notin> set (fst f)" by blast
  from parts_come_back [OF e n assms(2,3,4)] obtain ps q where *:
    "list_all2 field_part fs ps" "file_part (name, filename, file_data) q"
    "received (body, ct) = Some (ps @ [q])"
    by blast
  from *(2) have data: "snd q = file_data" by (auto simp: file_part_def split: sum.splits)
  with e * have "round_trip rnd fs [(name, filename, file_data)] =
      Some (map snd ps @ [file_data])"
    by (simp add: round_trip_def)
  moreover from *(1) have "list_all2 (\<lambda>f v. encode (snd f) = Inr v) fs (map snd ps)"
    by (induction rule: list_all2_induct) (auto simp: field_part_def split: sum.splits)
  ultimately show ?thesis by blast
qed

lemma delimiter_length: "length (delimiter (boundary_bytes rnd)) = 26 + 2 * length rnd"
proof -
  have "length (hex rnd) = 2 * length rnd"
    by (induction rnd) (simp_all add: hex_def)
  then show ?thesis by (simp add: delimiter_def dash_boundary_def boundary_bytes_def crlf_def)
qed

lemma too_short: "length xs < length pat \<Longrightarrow> \<not> sublist pat xs"
  by (auto dest: sublist_length_le)

theorem round_trip_recovers_witness:
  "round_trip zero_rnd script_fields [sample_file] =
     Some [''true'', ''true'', ''true'', ''true'', ''a,b'' @ crlf @ ''1,2'' @ crlf]"
proof -
  have t: "encode (ustr ''true'') = Inr ''true''" by (simp add: encode_ustr)
  have h1: "\<forall>f\<in>set script_fields. encodable (fst f) \<and> encodable (snd f) \<and> 13 \<notin> set (fst f)"
    by (simp add: script_fields_def ustr_encodable) (simp add: ustr_def)
  have h2: "encodable (ustr ''file'') \<and> encodable (ustr ''test-enrichment-flow.csv'') \<and>
      13 \<notin> set (ustr ''file'') \<and> 13 \<notin> set (ustr ''test-enrichment-flow.csv'')"
    by (simp add: ustr_encodable) (simp add: ustr_def)
  have h3: "\<forall>f\<in>set script_fields. \<forall>v. encode (snd f) = Inr v \<longrightarrow>
           \<not> sublist (delimiter (boundary_bytes zero_rnd)) (crlf @ v)"
    by (auto simp: script_fields_def t intro!: too_short
        simp: delimiter_length zero_rnd_def crlf_def)
  have h4: "\<not> sublist (delimiter (boundary_bytes zero_rnd)) (crlf @ ''a,b'' @ crlf @ ''1,2'' @ crlf)"
    by (intro too_short) (simp add: delimiter_length zero_rnd_def crlf_def)
  from round_trip_recovers [OF h1 h2 h3 h4] obtain vs where
    vs: "list_all2 (\<lambda>f v. encode (snd f) = Inr v) script_fields vs"
    "round_trip zero_rnd script_fields
       [(ustr ''file'', ustr ''test-enrichment-flow.csv'', ''a,b'' @ crlf @ ''1,2'' @ crlf)] =
     Some (vs @ [''a,b'' @ crlf @ ''1,2'' @ crlf])"
    by blast
  from vs(1) have "vs = [''true'', ''true'', ''true'', ''true'']"
    by (auto simp: script_fields_def list_all2_Cons1 t)
  with vs(2) show ?thesis by (simp add: sample_file_def)
qed

text \<open>The claim as stated fails in two ways. A field name that holds an empty line ends
  the header block early, so that the rest of the name comes back as part of the value; this
  does not depend on the random boundary. And octets of the file that hold a delimiter
  line of the boundary that was drawn come back as two parts.\<close>

theorem round_trip_counterexample:
  "round_trip zero_rnd [(ustr ''a'' @ CRLF @ CRLF @ ustr ''b'', ustr ''v'')]
       [(ustr ''file'', ustr ''t.csv'', ''d'')] =
     Some [''b'' @ [CHR 0x22] @ crlf @ crlf @ ''v'', ''d''] \<and>
   round_trip zero_rnd []
       [(ustr ''file'', ustr ''t.csv'',
         ''x'' @ delimiter (boundary_bytes zero_rnd) @ crlf @ crlf @ ''y'')] =
     Some [''x'', ''y'']"
  by code_simp

text \<open>
  C2 (as amended). The body that the encoder returns for a dictionary of fields and one
  file is, in this order: one part for every field, carrying the field's name in its header
  and its value as content; one part for the file, carrying its name, its file name and the
  content type in the header and the file's octets as content; and the close delimiter
  line, the boundary followed by \<open>--\<close>. Every part is a delimiter line, the header block, an
  empty line (\<open>CRLF CRLF\<close> after the last header), the content and \<open>CRLF\<close>. These are
  exactly the parts that the boundary delimits in the body, the decoder finds them and no
  other, when the names and the file name are strings without a carriage return and no
  line of a value or of the file's octets begins with the boundary.
\<close>

theorem one_part_per_field_and_file:
  assumes "encode_multipart_formdata rnd fs [(name, filename, file_data)] = Inr (body, ct)"
  shows "\<exists>ps q. length ps = length fs \<and> list_all2 field_part fs ps \<and>
           file_part (name, filename, file_data) q \<and>
           body = concat (map (delimited_part (boundary_bytes rnd)) (ps @ [q]))
                    @ dash_boundary (boundary_bytes rnd) @ ''--'' @ crlf \<and>
           ((\<forall>f\<in>set fs. encodable (fst f) \<and> 13 \<notin> set (fst f)) \<and>
            (encodable name \<and> encodable filename \<and> 13 \<notin> set name \<and> 13 \<notin> set filename) \<and>
            (\<forall>f\<in>set fs. \<forall>v. encode (snd f) = Inr v \<longrightarrow>
               \<not> sublist (delimiter (boundary_bytes rnd)) (crlf @ v)) \<and>
            \<not> sublist (delimiter (boundary_bytes rnd)) (crlf @ file_data) \<longrightarrow>
            decoded_parts rnd fs [(name, filename, file_data)] = Some (ps @ [q]) \<and>
            length (ps @ [q]) = length fs + 1)"
proof (cases "(\<forall>f\<in>set fs. encodable (fst f) \<and> 13 \<notin> set (fst f)) \<and>
            (encodable name \<and> encodable filename \<and> 13 \<notin> set name \<and> 13 \<notin> set filename) \<and>
            (\<forall>f\<in>set fs. \<forall>v. encode (snd f) = Inr v \<longrightarrow>
               \<not> sublist (delimiter (boundary_bytes rnd)) (crlf @ v)) \<and>
            \<not> sublist (delimiter (boundary_bytes rnd)) (crlf @ file_data)")
  case True
  then have h: "\<forall>f\<in>set fs. encodable (fst f) \<and> 13 \<notin> set (fst f)"
    "encodable name \<and> encodable filename \<and> 13 \<notin> set name \<and> 13 \<notin> set filename"
    "\<forall>f\<in>set fs. \<forall>v. encode (snd f) = Inr v \<longrightarrow>
        \<not> sublist (delimiter (boundary_bytes rnd)) (crlf @ v)"
    "\<not> sublist (delimiter (boundary_bytes rnd)) (crlf @ file_data)"
    by blast+
  from parts_come_back [OF assms h] obtain ps q where *:
    "list_all2 field_part fs ps" "file_part (name, filename, file_data) q"
    "body = concat (map (delimited_part (boundary_bytes rnd)) (ps @ [q]))
                    @ dash_boundary (boundary_bytes rnd) @ ''--'' @ crlf"
    "received (body, ct) = Some (ps @ [q])"
    by blast
  from *(1) have len: "length ps = length fs" by (auto dest: list_all2_lengthD)
  from *(4) assms have "decoded_parts rnd fs [(name, filename, file_data)] = Some (ps @ [q])"
    by (simp add: decoded_parts_def)
  with * len show ?thesis
    by (intro exI [of _ ps] exI [of _ q]) simp
next
  case False
  from assms obtain ps qs where *: "list_all2 field_part fs ps"
    "list_all2 file_part [(name, filename, file_data)] qs"
    "body = concat (map (delimited_part (boundary_bytes rnd)) (ps @ qs))
                 @ dash_boundary (boundary_bytes rnd) @ ''--'' @ crlf"
    unfolding encoder_shape by blast
  from *(2) obtain q where q: "qs = [q]" "file_part (name, filename, file_data) q"
    by (auto simp: list_all2_Cons1)
  from *(1) have len: "length ps = length fs" by (auto dest: list_all2_lengthD)
  from * q len False show ?thesis
    by (intro exI [of _ ps] exI [of _ q]) blast
qed

theorem one_part_per_field_and_file_witness:
  "\<exists>body ct ps q. encode_multipart_formdata zero_rnd script_fields [sample_file] = Inr (body, ct) \<and>
     length ps = 4 \<and> list_all2 field_part script_fields ps \<and> file_part sample_file q \<and>
     body = concat (map (delimited_part (boundary_bytes zero_rnd)) (ps @ [q]))
              @ dash_boundary (boundary_bytes zero_rnd) @ ''--'' @ crlf \<and>
     decoded_parts zero_rnd script_fields [sample_file] = Some (ps @ [q])"
proof -
  have t: "encode (ustr ''true'') = Inr ''true''" by (simp add: encode_ustr)
  have h1: "\<forall>f\<in>set script_fields. encodable (fst f) \<and> 13 \<notin> set (fst f)"
    by (simp add: script_fields_def ustr_encodable) (simp add: ustr_def)
  have h2: "encodable (ustr ''file'') \<and> encodable (ustr ''test-enrichment-flow.csv'') \<and>
      13 \<notin> set (ustr ''file'') \<and> 13 \<notin> set (ustr ''test-enrichment-flow.csv'')"
    by (simp add: ustr_encodable) (simp add: ustr_def)
  have h3: "\<forall>f\<in>set script_fields. \<forall>v. encode (snd f) = Inr v \<longrightarrow>
           \<not> sublist (delimiter (boundary_bytes zero_rnd)) (crlf @ v)"
    by (auto simp: script_fields_def t intro!: too_short
        simp: delimiter_length zero_rnd_def crlf_def)
  have h4: "\<not> sublist (delimiter (boundary_bytes zero_rnd)) (crlf @ ''a,b'' @ crlf @ ''1,2'' @ crlf)"
    by (intro too_short) (simp add: delimiter_length zero_rnd_def crlf_def)
  from sample_encodes obtain body ct where
    e: "encode_multipart_formdata zero_rnd script_fields
          [(ustr ''file'', ustr ''test-enrichment-flow.csv'', ''a,b'' @ crlf @ ''1,2'' @ crlf)] =
        Inr (body, ct)"
    unfolding sample_file_def by blast
  from one_part_per_field_and_file [OF e] h1 h2 h3 h4 obtain ps q where
    *: "length ps = length script_fields" "list_all2 field_part script_fields ps"
       "file_part (ustr ''file'', ustr ''test-enrichment-flow.csv'', ''a,b'' @ crlf @ ''1,2'' @ crlf) q"
       "body = concat (map (delimited_part (boundary_bytes zero_rnd)) (ps @ [q]))
              @ dash_boundary (boundary_bytes zero_rnd) @ ''--'' @ crlf"
       "decoded_parts zero_rnd script_fields
          [(ustr ''file'', ustr ''test-enrichment-flow.csv'', ''a,b'' @ crlf @ ''1,2'' @ crlf)] =
        Some (ps @ [q])"
    by blast
  from *(1) have "length ps = 4" by (simp add: script_fields_def)
  with * e show ?thesis unfolding sample_file_def by blast
qed

text \<open>The claim as stated fails: octets of the file that hold a delimiter line of the
  boundary that was drawn make two parts of the one file, the second without a header. The
  body of a call without fields then holds two boundary-delimited parts, not one.\<close>

theorem two_parts_counterexample:
  "decoded_parts zero_rnd []
       [(ustr ''file'', ustr ''t.csv'',
         ''x'' @ delimiter (boundary_bytes zero_rnd) @ crlf @ crlf @ ''y'')] =
     Some [(file_header ''file'' ''t.csv'', ''x''), ([], ''y'')]"
  by code_simp

end
